theory Spec2Isabelle
  imports Complex_Main "HOL-Library.Sublist"
begin

section \<open>Values, tool calls and messages\<close>

text \<open>
  JavaScript values as the examples use them: the arguments of a tool call, the
  \<open>category\<close> channel and the fields of the enrichment object. \<open>JUndefined\<close> is the
  value of a channel or property that was never written. A number is a \<open>real\<close>: IEEE
  rounding is not modelled, and the only arithmetic the theorems below evaluate is
  \<open>3 + 4\<close>, which a double computes exactly.
\<close>

datatype jsvalue =
    JUndefined
  | JNull
  | JBool bool
  | JNum real
  | JStr string
  | JArr "jsvalue list"
  | JObj "(string \<times> jsvalue) list"

type_synonym jsobject = "string \<rightharpoonup> jsvalue"

text \<open>
  What a tool body returns: \<open>a + b\<close>, \<open>a * b\<close> and \<open>a / b\<close> on numbers. Division by zero
  gives \<open>Infinity\<close>, \<open>-Infinity\<close> or \<open>NaN\<close> in JavaScript, never an exception; the three are
  \<open>NonFinite\<close> here.
\<close>

datatype jsnumber = Number real | NonFinite

text \<open>
  The content of a message is text. A tool message carries the JSON text of the number its
  tool returned; the model keeps the number itself (\<open>Output\<close>) instead of its digits.
\<close>

datatype content = Text string | Output jsnumber

record ToolCall =
  call_name :: string
  call_args :: jsobject
  call_id :: string

text \<open>
  The tagged union over roles. \<open>tool_calls\<close> of an ai message is optional in the source
  (\<open>tool_calls?: ToolCall[]\<close>), hence the \<open>option\<close>.
\<close>

datatype Message =
    SystemMessage content
  | HumanMessage content
  | AIMessage content "ToolCall list option"
  | ToolMessage content string string

fun getType :: "Message \<Rightarrow> string" where
  "getType (SystemMessage c) = ''system''"
| "getType (HumanMessage c) = ''human''"
| "getType (AIMessage c tcs) = ''ai''"
| "getType (ToolMessage c i n) = ''tool''"

fun tool_calls :: "Message \<Rightarrow> ToolCall list option" where
  "tool_calls (AIMessage c tcs) = tcs"
| "tool_calls m = None"

fun tool_call_id :: "Message \<Rightarrow> string option" where
  "tool_call_id (ToolMessage c i n) = Some i"
| "tool_call_id m = None"

text \<open>\<open>xs.at(-1)\<close>: the last element, \<open>undefined\<close> on the empty array.\<close>

definition at_last :: "'a list \<Rightarrow> 'a option" where
  "at_last xs = (if xs = [] then None else Some (last xs))"

text \<open>\<open>xs ?? []\<close> and the truthiness of \<open>xs?.length\<close> on an optional array.\<close>

definition or_empty :: "'a list option \<Rightarrow> 'a list" where
  "or_empty xs = (case xs of None \<Rightarrow> [] | Some ys \<Rightarrow> ys)"

definition has_length :: "'a list option \<Rightarrow> bool" where
  "has_length xs = (case xs of None \<Rightarrow> False | Some ys \<Rightarrow> length ys \<noteq> 0)"

section \<open>Errors\<close>

text \<open>
  The error kinds of the engine, and \<open>TypeError\<close> for the JavaScript run-time error of
  calling a method on \<open>undefined\<close>.
\<close>

datatype error =
    ConfigurationError
  | ExecutionError
  | ValidationError
  | StepLimitExceeded
  | CancellationError
  | TypeError

section \<open>Tools (graph.ts, functional.ts)\<close>

text \<open>
  A tool as \<open>tool(fn, {name, description, schema})\<close> declares it: its name, its schema
  (parsing the arguments object into what the body takes, \<open>None\<close> when the object does not
  match) and its body.
\<close>

record tool =
  tool_name :: string
  tool_schema :: "jsobject \<Rightarrow> (real \<times> real) option"
  tool_body :: "real \<times> real \<Rightarrow> jsnumber"

text \<open>\<open>z.object({ a: z.number(), b: z.number() })\<close>, the schema of all three tools.\<close>

definition two_numbers :: "jsobject \<Rightarrow> (real \<times> real) option" where
  "two_numbers obj =
     (case obj ''a'' of
        Some (JNum a) \<Rightarrow> (case obj ''b'' of Some (JNum b) \<Rightarrow> Some (a, b) | _ \<Rightarrow> None)
      | _ \<Rightarrow> None)"

definition add :: tool where
  "add = \<lparr>tool_name = ''add'', tool_schema = two_numbers,
          tool_body = (\<lambda>(a, b). Number (a + b))\<rparr>"

definition multiply :: tool where
  "multiply = \<lparr>tool_name = ''multiply'', tool_schema = two_numbers,
               tool_body = (\<lambda>(a, b). Number (a * b))\<rparr>"

definition divide :: tool where
  "divide = \<lparr>tool_name = ''divide'', tool_schema = two_numbers,
             tool_body = (\<lambda>(a, b). if b = 0 then NonFinite else Number (a / b))\<rparr>"

text \<open>
  The registry. A name that is no key of it reads as \<open>undefined\<close> (\<open>None\<close>); the names
  JavaScript finds on the prototype of an object literal have no \<open>invoke\<close> method either,
  so that calling \<open>tool.invoke\<close> ends in the same \<open>TypeError\<close> for them.
\<close>

definition toolsByName :: "string \<rightharpoonup> tool" where
  "toolsByName =
     [tool_name add \<mapsto> add, tool_name multiply \<mapsto> multiply, tool_name divide \<mapsto> divide]"

text \<open>
  Modelled from the spec: \<open>tool.invoke\<close>, the wrapper that the library function \<open>tool\<close>
  puts around a body, is not under src/. The tool interface of the spec validates the
  arguments against the schema before the body runs, may fail with a \<open>ValidationError\<close>,
  and tags the result with the originating call id; a body that throws would be an
  \<open>ExecutionError\<close>, which none of the three bodies does.
\<close>

definition tool_invoke :: "tool \<Rightarrow> ToolCall \<Rightarrow> error + Message" where
  "tool_invoke t toolCall =
     (case tool_schema t (call_args toolCall) of
        None \<Rightarrow> Inl ValidationError
      | Some parsed \<Rightarrow> Inr (ToolMessage (Output (tool_body t parsed)) (call_id toolCall) (tool_name t)))"

section \<open>The tool-calling agent of graph.ts\<close>

text \<open>
  \<open>MessagesAnnotation.State\<close> has the one channel \<open>messages\<close>; a node returns the messages
  to add to it.
\<close>

record MessagesState =
  messages :: "Message list"

type_synonym MessagesUpdate = "Message list"

text \<open>
  Modelled from the spec: the reducer of the message channel is library code. The spec
  gives the channel the append merge policy: the new items are concatenated to the
  existing sequence, in arrival order.
\<close>

definition append_messages :: "MessagesState \<Rightarrow> MessagesUpdate \<Rightarrow> MessagesState" where
  "append_messages state update = state\<lparr>messages := messages state @ update\<rparr>"

text \<open>
  The model provider is external. \<open>llm n sent\<close> is what its call number \<open>n\<close> (from 0)
  answers to the messages \<open>sent\<close>: an error, or the content and the optional tool calls of
  an ai message. The number of calls made so far is the only state the walk threads.
\<close>

type_synonym llm = "nat \<Rightarrow> Message list \<Rightarrow> error + (content \<times> ToolCall list option)"

definition system_prompt :: Message where
  "system_prompt = SystemMessage (Text
     ''You are a helpful assistant tasked with performing arithmetic on a set of inputs.'')"

definition llmCall :: "llm \<Rightarrow> nat \<Rightarrow> MessagesState \<Rightarrow> error + (MessagesUpdate \<times> nat)" where
  "llmCall modelWithTools n state =
     (case modelWithTools n (system_prompt # messages state) of
        Inl e \<Rightarrow> Inl e
      | Inr (c, tcs) \<Rightarrow> Inr ([AIMessage c tcs], Suc n))"

text \<open>The \<open>for\<close> loop of \<open>toolNode\<close>, with \<open>result\<close> as its accumulator.\<close>

fun toolNode_loop :: "ToolCall list \<Rightarrow> Message list \<Rightarrow> error + Message list" where
  "toolNode_loop [] result = Inr result"
| "toolNode_loop (toolCall # rest) result =
     (case toolsByName (call_name toolCall) of
        None \<Rightarrow> Inl TypeError
      | Some t \<Rightarrow>
          (case tool_invoke t toolCall of
             Inl e \<Rightarrow> Inl e
           | Inr observation \<Rightarrow> toolNode_loop rest (result @ [observation])))"

definition toolNode :: "MessagesState \<Rightarrow> error + MessagesUpdate" where
  "toolNode state =
     (case at_last (messages state) of
        None \<Rightarrow> Inr []
      | Some lastMessage \<Rightarrow>
          if getType lastMessage \<noteq> ''ai'' then Inr []
          else toolNode_loop (or_empty (tool_calls lastMessage)) [])"

definition START :: string where
  "START = ''__start__''"

definition END :: string where
  "END = ''__end__''"

definition shouldContinue :: "MessagesState \<Rightarrow> string" where
  "shouldContinue state =
     (case at_last (messages state) of
        None \<Rightarrow> END
      | Some lastMessage \<Rightarrow>
          if getType lastMessage \<noteq> ''ai'' then END
          else if has_length (tool_calls lastMessage) then ''toolNode''
          else END)"

section \<open>Graph descriptors\<close>

text \<open>
  What the builder calls record: \<open>addNode\<close> a named node function, \<open>addEdge\<close> a static
  edge, \<open>addConditionalEdges\<close> a routing function with its mapping from labels to
  destinations (an array of names maps each name to itself). A node function takes the
  state of the outside world and the graph state, and fails or returns a partial update
  and the new outside world.
\<close>

datatype 's edge =
    Static string
  | Conditional "'s \<Rightarrow> string" "(string \<times> string) list"

record ('s, 'u, 'w) graph =
  nodes :: "(string \<times> ('w \<Rightarrow> 's \<Rightarrow> error + ('u \<times> 'w))) list"
  edges :: "(string \<times> 's edge) list"
  reducer :: "'s \<Rightarrow> 'u \<Rightarrow> 's"

definition agent :: "llm \<Rightarrow> (MessagesState, MessagesUpdate, nat) graph" where
  "agent modelWithTools =
     \<lparr>nodes =
        [(''llmCall'', llmCall modelWithTools),
         (''toolNode'', \<lambda>n state. map_sum id (\<lambda>u. (u, n)) (toolNode state))],
      edges =
        [(START, Static ''llmCall''),
         (''llmCall'', Conditional shouldContinue [(''toolNode'', ''toolNode''), (END, END)]),
         (''toolNode'', Static ''llmCall'')],
      reducer = append_messages\<rparr>"

section \<open>The executor\<close>

text \<open>
  Modelled from the spec: the executor (\<open>compile\<close> and \<open>invoke\<close> of the library's
  \<open>StateGraph\<close>) is not under src/. Each step executes the current node against the
  current state, stops with the node's error if it fails, merges the returned update into
  the state, and resolves the next node: a static edge is taken, a conditional edge
  invokes the routing function with the just-merged state and looks the label up in the
  declared mapping, failing with a configuration error if the label is absent. The walk
  stops with the final state when the next node is \<open>END\<close>, and fails with
  \<open>StepLimitExceeded\<close> when a node would run beyond the maximum step count. Lookups that
  \<open>compile\<close> would have rejected give a configuration error. Beside the outcome the
  model returns the history of the walk: the name of every node that completed, with the
  state after its merge.
\<close>

definition resolve_next :: "(string \<times> 's edge) list \<Rightarrow> string \<Rightarrow> 's \<Rightarrow> error + string" where
  "resolve_next declared current state =
     (case map_of declared current of
        None \<Rightarrow> Inl ConfigurationError
      | Some (Static dest) \<Rightarrow> Inr dest
      | Some (Conditional route mapping) \<Rightarrow>
          (case map_of mapping (route state) of
             None \<Rightarrow> Inl ConfigurationError
           | Some dest \<Rightarrow> Inr dest))"

type_synonym 's run = "(error + 's) \<times> (string \<times> 's) list"

text \<open>
  Modelled from the spec: the steps of the executor from the node \<open>current\<close> on, with
  \<open>budget\<close> the number of node executions that the step limit still allows.
\<close>

fun walk :: "('s, 'u, 'w) graph \<Rightarrow> nat \<Rightarrow> string \<Rightarrow> 'w \<Rightarrow> 's \<Rightarrow> 's run" where
  "walk g 0 current w state = (Inl StepLimitExceeded, [])"
| "walk g (Suc budget) current w state =
     (case map_of (nodes g) current of
        None \<Rightarrow> (Inl ConfigurationError, [])
      | Some node \<Rightarrow>
          (case node w state of
             Inl e \<Rightarrow> (Inl e, [])
           | Inr (update, w') \<Rightarrow>
               (let state' = reducer g state update in
                case resolve_next (edges g) current state' of
                  Inl e \<Rightarrow> (Inl e, [(current, state')])
                | Inr next \<Rightarrow>
                    if next = END then (Inr state', [(current, state')])
                    else (case walk g budget next w' state' of
                            (outcome, rest) \<Rightarrow> (outcome, (current, state') # rest)))))"

text \<open>
  Modelled from the spec: \<open>invoke\<close> starts at the node reached from \<open>START\<close>'s static
  edge, with the whole step limit.
\<close>

definition invoke :: "('s, 'u, 'w) graph \<Rightarrow> nat \<Rightarrow> 'w \<Rightarrow> 's \<Rightarrow> 's run" where
  "invoke g limit w initialState =
     (case resolve_next (edges g) START initialState of
        Inl e \<Rightarrow> (Inl e, [])
      | Inr entry \<Rightarrow>
          if entry = END then (Inr initialState, [])
          else walk g limit entry w initialState)"

definition outcome :: "'s run \<Rightarrow> error + 's" where
  "outcome r = fst r"

definition executed :: "'s run \<Rightarrow> string list" where
  "executed r = map fst (snd r)"

definition snapshots :: "'s run \<Rightarrow> 's list" where
  "snapshots r = map snd (snd r)"

section \<open>Scenarios of the tool-calling loop\<close>

text \<open>
  A pending call that the tool node can serve: its name is a key of the registry and the
  schema of that tool accepts its arguments.
\<close>

definition accepted :: "ToolCall \<Rightarrow> bool" where
  "accepted toolCall =
     (case toolsByName (call_name toolCall) of
        None \<Rightarrow> False
      | Some t \<Rightarrow> tool_schema t (call_args toolCall) \<noteq> None)"

text \<open>
  A model that, from its call number \<open>n\<close> on, answers \<open>k\<close> times with an ai message that
  carries exactly one servable tool call, and then with an ai message without tool calls.
\<close>

definition tool_calls_then_plain :: "nat \<Rightarrow> nat \<Rightarrow> llm \<Rightarrow> bool" where
  "tool_calls_then_plain n k modelWithTools \<longleftrightarrow>
     (\<forall>i<k. \<forall>sent. \<exists>c toolCall.
        modelWithTools (n + i) sent = Inr (c, Some [toolCall]) \<and> accepted toolCall)
     \<and> (\<forall>sent. \<exists>c tcs. modelWithTools (n + k) sent = Inr (c, tcs) \<and> \<not> has_length tcs)"

text \<open>A stubbed model that plays a fixed script and fails when the script is over.\<close>

definition scripted :: "(content \<times> ToolCall list option) list \<Rightarrow> llm" where
  "scripted script n sent = (if n < length script then Inr (script ! n) else Inl ExecutionError)"

text \<open>The run of graph.ts: the question, the call the model asks for, and its answer.\<close>

definition question :: Message where
  "question = HumanMessage (Text ''Add 3 and 4.'')"

definition add_3_4 :: ToolCall where
  "add_3_4 = \<lparr>call_name = ''add'', call_args = [''a'' \<mapsto> JNum 3, ''b'' \<mapsto> JNum 4],
              call_id = ''call_1''\<rparr>"

definition add_3_4_model :: llm where
  "add_3_4_model = scripted [(Text [], Some [add_3_4]), (Text ''7'', Some [])]"

text \<open>Calls that the registry or a schema turns down.\<close>

definition add_three_4 :: ToolCall where
  "add_three_4 = \<lparr>call_name = ''add'', call_args = [''a'' \<mapsto> JStr ''three'', ''b'' \<mapsto> JNum 4],
                  call_id = ''call_2''\<rparr>"

definition multiply_6 :: ToolCall where
  "multiply_6 = \<lparr>call_name = ''multiply'', call_args = [''a'' \<mapsto> JNum 6],
                 call_id = ''call_3''\<rparr>"

definition subtract_9_2 :: ToolCall where
  "subtract_9_2 = \<lparr>call_name = ''subtract'', call_args = [''a'' \<mapsto> JNum 9, ''b'' \<mapsto> JNum 2],
                   call_id = ''call_4''\<rparr>"

text \<open>
  A graph with a deliberate cycle: its one node adds 1 to a counter, and its routing
  function always leads back to it.
\<close>

definition spinning :: "(nat, nat, unit) graph" where
  "spinning =
     \<lparr>nodes = [(''spin'', \<lambda>w count. Inr (1, w))],
      edges = [(START, Static ''spin''),
               (''spin'', Conditional (\<lambda>count. ''again'') [(''again'', ''spin'')])],
      reducer = (\<lambda>count update. count + update)\<rparr>"

section \<open>The functional agent of functional.ts\<close>

text \<open>
  \<open>Promise.all\<close>, given the order in which the tasks settle: a fulfilled task writes its
  value into its own slot of the result array, the first rejection rejects the whole, and
  once every slot is written the array is the result. \<open>None\<close>: some task never settles
  and the promise stays pending.
\<close>

fun settle :: "nat list \<Rightarrow> (error + 'a) list \<Rightarrow> 'a option list \<Rightarrow> (error + 'a list) option" where
  "settle [] tasks slots =
     (if list_all (\<lambda>slot. slot \<noteq> None) slots then Some (Inr (map the slots)) else None)"
| "settle (i # order) tasks slots =
     (if length tasks \<le> i then settle order tasks slots
      else (case tasks ! i of
              Inl e \<Rightarrow> Some (Inl e)
            | Inr v \<Rightarrow> settle order tasks (slots[i := Some v])))"

definition Promise_all :: "nat list \<Rightarrow> (error + 'a) list \<Rightarrow> (error + 'a list) option" where
  "Promise_all order tasks = settle order tasks (replicate (length tasks) None)"

text \<open>
  Modelled from the spec: \<open>addMessages\<close> is the library's reducer of the message channel,
  the append merge.
\<close>

definition addMessages :: "Message list \<Rightarrow> Message list \<Rightarrow> Message list" where
  "addMessages left right = left @ right"

text \<open>The lines that \<open>callLlm\<close> and \<open>callTool\<close> print to the console are left out.\<close>

definition callLlm :: "llm \<Rightarrow> nat \<Rightarrow> Message list \<Rightarrow> error + (content \<times> ToolCall list option)" where
  "callLlm modelWithTools n msgs = modelWithTools n (system_prompt # msgs)"

definition callTool :: "ToolCall \<Rightarrow> error + Message" where
  "callTool toolCall =
     (case toolsByName (call_name toolCall) of
        None \<Rightarrow> Inl TypeError
      | Some t \<Rightarrow> tool_invoke t toolCall)"

text \<open>
  The \<open>while (true)\<close> loop of the entrypoint, with fuel for its iterations: \<open>None\<close> when
  the fuel runs out before the loop breaks. The tool tasks of one iteration are taken to
  settle in the order in which they were started.
\<close>

fun agent_loop ::
  "llm \<Rightarrow> nat \<Rightarrow> nat \<Rightarrow> Message list \<Rightarrow> content \<times> ToolCall list option
     \<Rightarrow> (error + Message list) option" where
  "agent_loop modelWithTools 0 n msgs modelResponse = None"
| "agent_loop modelWithTools (Suc fuel) n msgs modelResponse =
     (if \<not> has_length (snd modelResponse) then Some (Inr msgs)
      else (case Promise_all [0..<length (or_empty (snd modelResponse))]
                   (map callTool (or_empty (snd modelResponse))) of
              None \<Rightarrow> None
            | Some (Inl e) \<Rightarrow> Some (Inl e)
            | Some (Inr toolResults) \<Rightarrow>
                (let msgs' = addMessages msgs
                       (AIMessage (fst modelResponse) (snd modelResponse) # toolResults)
                 in case callLlm modelWithTools n msgs' of
                      Inl e \<Rightarrow> Some (Inl e)
                    | Inr modelResponse' \<Rightarrow>
                        agent_loop modelWithTools fuel (Suc n) msgs' modelResponse')))"

definition functional_agent :: "llm \<Rightarrow> nat \<Rightarrow> Message list \<Rightarrow> (error + Message list) option" where
  "functional_agent modelWithTools fuel msgs =
     (case callLlm modelWithTools 0 msgs of
        Inl e \<Rightarrow> Some (Inl e)
      | Inr modelResponse \<Rightarrow> agent_loop modelWithTools fuel 1 msgs modelResponse)"

section \<open>The conditional graph with the fan-out stage\<close>

text \<open>
  The channels of the graph state; a channel no node has written yet is \<open>JUndefined\<close>.
  \<open>input\<close> is always given to \<open>invoke\<close>.
\<close>

record GraphState =
  input :: string
  category :: jsvalue
  confidence :: jsvalue
  processed :: jsvalue
  path :: jsvalue
  response :: jsvalue
  enrichments :: jsvalue
  summary :: jsvalue
  timestamp :: jsvalue

text \<open>\<open>Object.assign(target, ...sources)\<close>: the sources are copied in order, a later one
  overwriting the properties of an earlier one.\<close>

definition Object_assign :: "jsobject \<Rightarrow> jsobject list \<Rightarrow> jsobject" where
  "Object_assign target sources = foldl (++) target sources"

text \<open>
  \<open>enrichDataNode\<close> returns the update \<open>{ enrichments: enrichmentData }\<close>; the model returns
  \<open>enrichmentData\<close>. Its inputs beside the state: the number that \<open>Math.random()\<close> gives
  the first sub-task, and the order in which the three sub-tasks settle. The trace lines
  of the node are left out.
\<close>

definition enrichDataNode :: "GraphState \<Rightarrow> real \<Rightarrow> nat list \<Rightarrow> (error + jsobject) option" where
  "enrichDataNode state random order =
     (case Promise_all order
             [Inr [''sentiment'' \<mapsto> JStr (if random > 0.5 then ''positive'' else ''neutral'')],
              Inr [''complexity'' \<mapsto> JStr (if length (input state) > 20 then ''high'' else ''low'')],
              Inr [''tags'' \<mapsto> JArr [JStr ''processed'', category state, JStr ''v1'']]] of
        None \<Rightarrow> None
      | Some (Inl e) \<Rightarrow> Some (Inl e)
      | Some (Inr enrichments') \<Rightarrow> Some (Inr (Object_assign Map.empty enrichments')))"

text \<open>
  A string whose white space matters, as JavaScript holds it: the list of its UTF-16 code
  units. \<open>units\<close> gives the code units of a text of ASCII characters.
\<close>

type_synonym utf16 = "nat list"

definition units :: "string \<Rightarrow> utf16" where
  "units text = map of_char text"

text \<open>
  A line that a routing function writes to the console, through \<open>trace\<close> or
  \<open>console.log\<close>, by its call site and the values put into its text.
\<close>

datatype console =
    RoutingTo jsvalue
  | ErrorDetected string
  | QuestionPresent utf16
  | NoQuestion
  | NextNode string
  | NoToolCalls

text \<open>A routing function gives its label and the lines it has written.\<close>

definition routeByCategory :: "GraphState \<Rightarrow> string \<times> console list" where
  "routeByCategory state =
     (if category state = JStr ''math'' then ''processMath''
      else if category state = JStr ''text'' then ''processText''
      else if category state = JStr ''data'' then ''processData''
      else ''enrichData'',
      [RoutingTo (category state)])"

text \<open>
  \<open>shouldContinue\<close> of graph.ts in the same form, statement by statement: it has no
  call that writes to the console.
\<close>

definition shouldContinue_console :: "MessagesState \<Rightarrow> string \<times> console list" where
  "shouldContinue_console state =
     (case at_last (messages state) of
        None \<Rightarrow> (END, [])
      | Some lastMessage \<Rightarrow>
          if getType lastMessage \<noteq> ''ai'' then (END, [])
          else if has_length (tool_calls lastMessage) then (''toolNode'', [])
          else (END, []))"

text \<open>
  \<open>shouldContinue\<close> of the traced agent (graph-trace.ts): after the early return it
  prints a line on either branch. The traced agent is wired like the agent of graph.ts.
\<close>

definition shouldContinue_trace :: "MessagesState \<Rightarrow> string \<times> console list" where
  "shouldContinue_trace state =
     (case at_last (messages state) of
        None \<Rightarrow> (END, [])
      | Some lastMessage \<Rightarrow>
          if getType lastMessage \<noteq> ''ai'' then (END, [])
          else if has_length (tool_calls lastMessage) then (''toolNode'', [NextNode ''toolNode''])
          else (END, [NoToolCalls]))"

definition trace_edges :: "(string \<times> MessagesState edge) list" where
  "trace_edges =
     [(START, Static ''llmCall''),
      (''llmCall'', Conditional (\<lambda>state. fst (shouldContinue_trace state))
         [(''toolNode'', ''toolNode''), (END, END)]),
      (''toolNode'', Static ''llmCall'')]"

definition category_paths :: "(string \<times> string) list" where
  "category_paths =
     [(''processMath'', ''processMath''), (''processText'', ''processText''),
      (''processData'', ''processData''), (''enrichData'', ''enrichData'')]"

definition graph_edges :: "(string \<times> GraphState edge) list" where
  "graph_edges =
     [(START, Static ''classifyInput''),
      (''classifyInput'', Conditional (\<lambda>state. fst (routeByCategory state)) category_paths),
      (''processMath'', Static ''enrichData''),
      (''processText'', Static ''enrichData''),
      (''processData'', Static ''enrichData''),
      (''enrichData'', Static ''summarizeResults''),
      (''summarizeResults'', Static END)]"

section \<open>The routing functions of devin-mcp-graph.ts\<close>

record DocState =
  repoName :: string
  userQuestion :: "utf16 option"
  wikiStructure :: jsvalue
  wikiContents :: "string option"
  answer :: "string option"
  insights :: jsvalue
  doc_summary :: "string option"
  error :: "string option"

text \<open>The truthiness of an optional string: defined and not empty.\<close>

definition truthy :: "'a list option \<Rightarrow> bool" where
  "truthy s = (case s of None \<Rightarrow> False | Some text \<Rightarrow> text \<noteq> [])"

text \<open>
  \<open>String.prototype.trim\<close> removes the white space and the line terminators of
  ECMAScript from both ends: tab, line feed, vertical tab, form feed, carriage return,
  space, no-break space, U+1680, U+2000 to U+200A, U+2028, U+2029, U+202F, U+205F, U+3000
  and U+FEFF.
\<close>

definition is_space :: "nat \<Rightarrow> bool" where
  "is_space c =
     (c \<in> set [0x09, 0x0A, 0x0B, 0x0C, 0x0D, 0x20, 0xA0, 0x1680, 0x2028, 0x2029, 0x202F,
                0x205F, 0x3000, 0xFEFF]
      \<or> (0x2000 \<le> c \<and> c \<le> 0x200A))"

definition trim :: "utf16 \<Rightarrow> utf16" where
  "trim text = rev (dropWhile is_space (rev (dropWhile is_space text)))"

definition checkError :: "DocState \<Rightarrow> string \<times> console list" where
  "checkError state =
     (if truthy (error state) then (''end'', [ErrorDetected (the (error state))])
      else (''continue'', []))"

definition shouldAnswerQuestion :: "DocState \<Rightarrow> string \<times> console list" where
  "shouldAnswerQuestion state =
     (if truthy (error state) then (''skip'', [])
      else if truthy (userQuestion state) \<and> length (trim (the (userQuestion state))) > 0
      then (''answer'', [QuestionPresent (the (userQuestion state))])
      else (''skip'', [NoQuestion]))"

definition doc_edges :: "(string \<times> DocState edge) list" where
  "doc_edges =
     [(START, Static ''fetchWikiStructure''),
      (''fetchWikiStructure'', Conditional (\<lambda>state. fst (checkError state))
         [(''continue'', ''fetchWikiContents''), (''end'', END)]),
      (''fetchWikiContents'', Static ''analyzeInsights''),
      (''analyzeInsights'', Conditional (\<lambda>state. fst (shouldAnswerQuestion state))
         [(''answer'', ''answerQuestion''), (''skip'', ''generateSummary'')]),
      (''answerQuestion'', Static ''generateSummary''),
      (''generateSummary'', Static END)]"

section \<open>States of the conditional graphs\<close>

text \<open>A state after the classification node, and states of the document graph.\<close>

definition classified :: GraphState where
  "classified =
     \<lparr>input = ''Add 3 and 4.'', category = JStr ''math'', confidence = JNum 1,
      processed = JUndefined, path = JUndefined, response = JUndefined,
      enrichments = JUndefined, summary = JUndefined, timestamp = JUndefined\<rparr>"

definition asked :: DocState where
  "asked =
     \<lparr>repoName = ''langchain-ai/langgraphjs'', userQuestion = Some (units ''What is a StateGraph?''),
      wikiStructure = JUndefined, wikiContents = None, answer = None, insights = JUndefined,
      doc_summary = None, error = None\<rparr>"

definition unreachable :: DocState where
  "unreachable = asked\<lparr>wikiStructure := JNull, error := Some ''fetch failed''\<rparr>"

text \<open>A question that consists of one no-break space.\<close>

definition blank :: DocState where
  "blank = asked\<lparr>userQuestion := Some [0xA0]\<rparr>"

text \<open>The states of the tool-calling agent after its first and its last model call.\<close>

definition calling :: MessagesState where
  "calling = \<lparr>messages = [question, AIMessage (Text []) (Some [add_3_4])]\<rparr>"

definition answered :: MessagesState where
  "answered =
     \<lparr>messages = [question, AIMessage (Text []) (Some [add_3_4]),
                  ToolMessage (Output (Number 7)) ''call_1'' ''add'',
                  AIMessage (Text ''7'') (Some [])]\<rparr>"

section \<open>The routing rule of the tool-calling loop\<close>

lemma at_last_Nil: "at_last [] = None"
  by (simp add: at_last_def)

lemma at_last_snoc: "at_last (xs @ [x]) = Some x"
  by (simp add: at_last_def)

lemma at_last_Some_iff: "at_last xs = Some x \<longleftrightarrow> (\<exists>ys. xs = ys @ [x])"
  by (cases xs rule: rev_cases) (simp_all add: at_last_def)

lemma END_not_toolNode: "END \<noteq> ''toolNode''" "''toolNode'' \<noteq> END"
  by (simp_all add: END_def)

text \<open>
  C1. After the model-call node the graph routes by \<open>shouldContinue\<close>, which answers
  \<open>toolNode\<close> exactly when the latest message is an ai message that carries at least one
  pending tool call, and \<open>END\<close> otherwise; the labels map to themselves; and the one edge
  that leaves \<open>toolNode\<close> is the static edge to \<open>llmCall\<close>.
\<close>

theorem shouldContinue_routing:
  "(shouldContinue state = ''toolNode'' \<longleftrightarrow>
      (\<exists>ms c toolCall rest. messages state = ms @ [AIMessage c (Some (toolCall # rest))]))
   \<and> (shouldContinue state \<noteq> ''toolNode'' \<longleftrightarrow> shouldContinue state = END)
   \<and> map_of (edges (agent modelWithTools)) ''llmCall''
       = Some (Conditional shouldContinue [(''toolNode'', ''toolNode''), (END, END)])
   \<and> filter (\<lambda>e. fst e = ''toolNode'') (edges (agent modelWithTools))
       = [(''toolNode'', Static ''llmCall'')]"
proof -
  have route: "shouldContinue state = ''toolNode'' \<longleftrightarrow>
      (\<exists>ms c toolCall rest. messages state = ms @ [AIMessage c (Some (toolCall # rest))])"
  proof (cases "messages state" rule: rev_cases)
    case Nil
    then show ?thesis
      by (simp add: shouldContinue_def at_last_Nil END_not_toolNode)
  next
    case (snoc ms m)
    show ?thesis
    proof (cases m)
      case (AIMessage c tcs)
      show ?thesis
      proof (cases tcs)
        case None
        with snoc AIMessage show ?thesis
          by (simp add: shouldContinue_def at_last_snoc has_length_def END_not_toolNode)
      next
        case (Some calls)
        with snoc AIMessage show ?thesis
          by (cases calls)
            (simp_all add: shouldContinue_def at_last_snoc has_length_def END_not_toolNode)
      qed
    qed (use snoc in \<open>simp_all add: shouldContinue_def at_last_snoc END_not_toolNode\<close>)
  qed
  have other: "shouldContinue state \<noteq> ''toolNode'' \<longleftrightarrow> shouldContinue state = END"
    by (auto simp add: shouldContinue_def END_not_toolNode split: option.splits)
  have cond: "map_of (edges (agent modelWithTools)) ''llmCall''
       = Some (Conditional shouldContinue [(''toolNode'', ''toolNode''), (END, END)])"
    by (simp add: agent_def START_def)
  have static: "filter (\<lambda>e. fst e = ''toolNode'') (edges (agent modelWithTools))
       = [(''toolNode'', Static ''llmCall'')]"
    by (simp add: agent_def START_def)
  from route other cond static show ?thesis by blast
qed

section \<open>Walks of the tool-calling agent\<close>


lemma START_not_END: "START \<noteq> END" by (simp add: START_def END_def)

lemma names_distinct [simp]:
  "''llmCall'' \<noteq> END" "''toolNode'' \<noteq> END" "''llmCall'' \<noteq> START" "''toolNode'' \<noteq> START"
  "END \<noteq> ''llmCall''" "END \<noteq> ''toolNode''" "START \<noteq> ''llmCall''" "START \<noteq> ''toolNode''"
  by (simp_all add: START_def END_def)

lemma resolve_START: "resolve_next (edges (agent llm)) START s = Inr ''llmCall''"
  by (simp add: resolve_next_def agent_def)

lemma resolve_toolNode: "resolve_next (edges (agent llm)) ''toolNode'' s = Inr ''llmCall''"
  by (simp add: resolve_next_def agent_def)

lemma resolve_llmCall: "resolve_next (edges (agent llm)) ''llmCall'' s = Inr (shouldContinue s)"
  by (simp add: resolve_next_def agent_def shouldContinue_def split: option.splits)

lemma invoke_agent: "invoke (agent llm) limit n s = walk (agent llm) limit ''llmCall'' n s"
  by (simp add: invoke_def resolve_START)

lemma node_llmCall: "map_of (nodes (agent llm)) ''llmCall'' = Some (llmCall llm)"
  by (simp add: agent_def)

lemma node_toolNode:
  "map_of (nodes (agent llm)) ''toolNode'' = Some (\<lambda>n state. map_sum id (\<lambda>u. (u, n)) (toolNode state))"
  by (simp add: agent_def)

lemma reducer_agent: "reducer (agent llm) = append_messages"
  by (simp add: agent_def)

lemma shouldContinue_appended:
  "shouldContinue (append_messages s [AIMessage c tcs]) = (if has_length tcs then ''toolNode'' else END)"
  by (simp add: shouldContinue_def append_messages_def at_last_snoc)

lemma walk_llmCall_fail:
  "llm n (system_prompt # messages s) = Inl e \<Longrightarrow>
   walk (agent llm) (Suc b) ''llmCall'' n s = (Inl e, [])"
  by (simp add: node_llmCall llmCall_def)

lemma walk_llmCall_end:
  "llm n (system_prompt # messages s) = Inr (c, tcs) \<Longrightarrow> \<not> has_length tcs \<Longrightarrow>
   walk (agent llm) (Suc b) ''llmCall'' n s =
     (Inr (append_messages s [AIMessage c tcs]), [(''llmCall'', append_messages s [AIMessage c tcs])])"
  by (simp add: node_llmCall llmCall_def reducer_agent resolve_llmCall shouldContinue_appended Let_def)

lemma walk_llmCall_tool:
  "llm n (system_prompt # messages s) = Inr (c, tcs) \<Longrightarrow> has_length tcs \<Longrightarrow>
   walk (agent llm) (Suc b) ''llmCall'' n s =
     (case walk (agent llm) b ''toolNode'' (Suc n) (append_messages s [AIMessage c tcs]) of
        (out, rest) \<Rightarrow> (out, (''llmCall'', append_messages s [AIMessage c tcs]) # rest))"
  by (simp add: node_llmCall llmCall_def reducer_agent resolve_llmCall shouldContinue_appended Let_def)

lemma walk_toolNode_fail:
  "toolNode s = Inl e \<Longrightarrow> walk (agent llm) (Suc b) ''toolNode'' n s = (Inl e, [])"
  by (simp add: node_toolNode)

lemma walk_toolNode_ok:
  "toolNode s = Inr u \<Longrightarrow>
   walk (agent llm) (Suc b) ''toolNode'' n s =
     (case walk (agent llm) b ''llmCall'' n (append_messages s u) of
        (out, rest) \<Rightarrow> (out, (''toolNode'', append_messages s u) # rest))"
  by (simp add: node_toolNode reducer_agent resolve_toolNode Let_def)


lemma toolNode_loop_result:
  "toolNode_loop calls acc = Inr r \<Longrightarrow>
   \<exists>obs. r = acc @ obs \<and> map tool_call_id obs = map (\<lambda>c. Some (call_id c)) calls
        \<and> (\<forall>m \<in> set obs. getType m = ''tool'')"
proof (induction calls arbitrary: acc)
  case Nil
  then show ?case by simp
next
  case (Cons toolCall rest)
  from Cons.prems obtain t parsed where
    t: "toolsByName (call_name toolCall) = Some t"
    and p: "tool_schema t (call_args toolCall) = Some parsed"
    and r: "toolNode_loop rest (acc @ [ToolMessage (Output (tool_body t parsed)) (call_id toolCall) (tool_name t)]) = Inr r"
    by (auto simp add: tool_invoke_def split: option.splits sum.splits)
  from Cons.IH [OF r] obtain obs where
    "r = (acc @ [ToolMessage (Output (tool_body t parsed)) (call_id toolCall) (tool_name t)]) @ obs"
    "map tool_call_id obs = map (\<lambda>c. Some (call_id c)) rest"
    "\<forall>m \<in> set obs. getType m = ''tool''"
    by blast
  then show ?case
    by (intro exI [of _ "ToolMessage (Output (tool_body t parsed)) (call_id toolCall) (tool_name t) # obs"]) simp
qed

lemma toolNode_loop_accepted:
  "\<forall>c \<in> set calls. accepted c \<Longrightarrow> \<exists>r. toolNode_loop calls acc = Inr r"
proof (induction calls arbitrary: acc)
  case Nil
  then show ?case by simp
next
  case (Cons toolCall rest)
  from Cons.prems have "accepted toolCall" by simp
  then obtain t parsed where
    t: "toolsByName (call_name toolCall) = Some t"
    and p: "tool_schema t (call_args toolCall) = Some parsed"
    by (auto simp add: accepted_def split: option.splits)
  from Cons.prems have "\<forall>c \<in> set rest. accepted c" by simp
  from Cons.IH [OF this] show ?case
    by (simp add: t p tool_invoke_def)
qed

lemma toolNode_ai:
  "toolNode (append_messages s [AIMessage c tcs]) = toolNode_loop (or_empty tcs) []"
  by (simp add: toolNode_def append_messages_def at_last_snoc)


lemma tool_calls_then_plain_Suc:
  "tool_calls_then_plain n (Suc k) llm \<Longrightarrow> tool_calls_then_plain (Suc n) k llm"
  unfolding tool_calls_then_plain_def
proof (intro conjI allI impI)
  fix i sent
  assume h: "(\<forall>i<Suc k. \<forall>sent. \<exists>c toolCall. llm (n + i) sent = Inr (c, Some [toolCall]) \<and> accepted toolCall)
     \<and> (\<forall>sent. \<exists>c tcs. llm (n + Suc k) sent = Inr (c, tcs) \<and> \<not> has_length tcs)"
    and i: "i < k"
  from i have "Suc i < Suc k" by simp
  with h have "\<exists>c toolCall. llm (n + Suc i) sent = Inr (c, Some [toolCall]) \<and> accepted toolCall"
    by blast
  then show "\<exists>c toolCall. llm (Suc n + i) sent = Inr (c, Some [toolCall]) \<and> accepted toolCall"
    by simp
next
  fix sent
  assume h: "(\<forall>i<Suc k. \<forall>sent. \<exists>c toolCall. llm (n + i) sent = Inr (c, Some [toolCall]) \<and> accepted toolCall)
     \<and> (\<forall>sent. \<exists>c tcs. llm (n + Suc k) sent = Inr (c, tcs) \<and> \<not> has_length tcs)"
  then have "\<exists>c tcs. llm (n + Suc k) sent = Inr (c, tcs) \<and> \<not> has_length tcs" by blast
  then show "\<exists>c tcs. llm (Suc n + k) sent = Inr (c, tcs) \<and> \<not> has_length tcs" by simp
qed

lemma agent_walk_cycles:
  "tool_calls_then_plain n k llm \<Longrightarrow> 2 * k + 1 \<le> budget \<Longrightarrow>
   \<exists>final new h. walk (agent llm) budget ''llmCall'' n s = (Inr final, h)
     \<and> messages final = messages s @ new
     \<and> map getType new = concat (replicate k [''ai'', ''tool'']) @ [''ai'']
     \<and> map fst h = ''llmCall'' # concat (replicate k [''toolNode'', ''llmCall''])"
proof (induction k arbitrary: n s budget)
  case 0
  from "0.prems"(2) obtain b where b: "budget = Suc b" by (cases budget) simp_all
  from "0.prems"(1) obtain c tcs where
    r: "llm n (system_prompt # messages s) = Inr (c, tcs)" and plain: "\<not> has_length tcs"
    unfolding tool_calls_then_plain_def by force
  show ?case
    using walk_llmCall_end [of llm n s c tcs b] r plain
    by (simp add: b append_messages_def)
next
  case (Suc k)
  from Suc.prems(2) obtain b where b: "budget = Suc (Suc b)" and b': "2 * k + 1 \<le> b"
    by (cases budget; cases "budget - 1") simp_all
  from Suc.prems(1) have "\<exists>c toolCall. llm (n + 0) (system_prompt # messages s) = Inr (c, Some [toolCall]) \<and> accepted toolCall"
    unfolding tool_calls_then_plain_def by blast
  then obtain c toolCall where
    r: "llm n (system_prompt # messages s) = Inr (c, Some [toolCall])" and ok: "accepted toolCall"
    by auto
  let ?s1 = "append_messages s [AIMessage c (Some [toolCall])]"
  from ok obtain u where u: "toolNode_loop [toolCall] [] = Inr u"
    using toolNode_loop_accepted [of "[toolCall]" "[]"] by auto
  from toolNode_loop_result [OF u] obtain obs where
    obs: "u = obs" "map tool_call_id obs = [Some (call_id toolCall)]" "\<forall>m \<in> set obs. getType m = ''tool''"
    by auto
  from obs(2) obtain m where m: "obs = [m]" by (cases obs) auto
  with obs(3) have tm: "getType m = ''tool''" by simp
  have tn: "toolNode ?s1 = Inr [m]"
    using u obs(1) m by (simp add: toolNode_ai or_empty_def)
  let ?s2 = "append_messages ?s1 [m]"
  from Suc.IH [OF tool_calls_then_plain_Suc [OF Suc.prems(1)] b', of ?s2]
  obtain final new h where
    w: "walk (agent llm) b ''llmCall'' (Suc n) ?s2 = (Inr final, h)"
    and f: "messages final = messages ?s2 @ new"
    and t: "map getType new = concat (replicate k [''ai'', ''tool'']) @ [''ai'']"
    and e: "map fst h = ''llmCall'' # concat (replicate k [''toolNode'', ''llmCall''])"
    by (elim exE conjE)
  have hl: "has_length (Some [toolCall])" by (simp add: has_length_def)
  have A: "walk (agent llm) budget ''llmCall'' n s
          = (Inr final, (''llmCall'', ?s1) # (''toolNode'', ?s2) # h)"
    using walk_llmCall_tool [of llm n s c "Some [toolCall]" "Suc b"] r hl
      walk_toolNode_ok [of ?s1 "[m]" llm b "Suc n"] tn w
    by (simp add: b)
  have B: "messages final = messages s @ (AIMessage c (Some [toolCall]) # m # new)"
    using f by (simp add: append_messages_def)
  have C: "map getType (AIMessage c (Some [toolCall]) # m # new)
       = concat (replicate (Suc k) [''ai'', ''tool'']) @ [''ai'']"
    using t tm by simp
  have D: "map fst ((''llmCall'', ?s1) # (''toolNode'', ?s2) # h)
       = ''llmCall'' # concat (replicate (Suc k) [''toolNode'', ''llmCall''])"
    using e by (induction k) simp_all
  show ?case
  proof (intro exI conjI)
    show "walk (agent llm) budget ''llmCall'' n s
          = (Inr final, (''llmCall'', ?s1) # (''toolNode'', ?s2) # h)" by (fact A)
    show "messages final = messages s @ (AIMessage c (Some [toolCall]) # m # new)" by (fact B)
    show "map getType (AIMessage c (Some [toolCall]) # m # new)
       = concat (replicate (Suc k) [''ai'', ''tool'']) @ [''ai'']" by (fact C)
    show "map fst ((''llmCall'', ?s1) # (''toolNode'', ?s2) # h)
       = ''llmCall'' # concat (replicate (Suc k) [''toolNode'', ''llmCall''])" by (fact D)
  qed
qed


lemma toolNode_last_ai:
  "at_last (messages state) = Some (AIMessage c tcs) \<Longrightarrow>
   toolNode state = toolNode_loop (or_empty tcs) []"
  by (simp add: toolNode_def)

lemma toolNode_result:
  "at_last (messages state) = Some (AIMessage c (Some calls)) \<Longrightarrow> toolNode state = Inr update \<Longrightarrow>
   map tool_call_id update = map (\<lambda>c. Some (call_id c)) calls \<and> (\<forall>m \<in> set update. getType m = ''tool'')"
  using toolNode_loop_result [of calls "[]" update]
  by (auto simp add: toolNode_last_ai or_empty_def)

lemma add_invoke_3_4:
  "call_name toolCall = ''add'' \<Longrightarrow> call_args toolCall ''a'' = Some (JNum 3) \<Longrightarrow>
   call_args toolCall ''b'' = Some (JNum 4) \<Longrightarrow>
   toolNode_loop [toolCall] [] = Inr [ToolMessage (Output (Number 7)) (call_id toolCall) ''add'']"
  by (simp add: toolsByName_def add_def multiply_def divide_def tool_invoke_def two_numbers_def)

lemma add_3_4_walk:
  assumes first: "llm 0 [system_prompt, question] = Inr (c, Some [toolCall])"
    and name: "call_name toolCall = ''add''"
    and a: "call_args toolCall ''a'' = Some (JNum 3)"
    and b: "call_args toolCall ''b'' = Some (JNum 4)"
    and second: "llm 1 [system_prompt, question, AIMessage c (Some [toolCall]),
                   ToolMessage (Output (Number 7)) (call_id toolCall) ''add''] = Inr (Text ''7'', tcs)"
    and plain: "\<not> has_length tcs"
  shows "invoke (agent llm) (Suc (Suc (Suc budget))) 0 \<lparr>messages = [question]\<rparr> =
     (Inr \<lparr>messages = [question, AIMessage c (Some [toolCall]),
                        ToolMessage (Output (Number 7)) (call_id toolCall) ''add'',
                        AIMessage (Text ''7'') tcs]\<rparr>,
      [(''llmCall'', \<lparr>messages = [question, AIMessage c (Some [toolCall])]\<rparr>),
       (''toolNode'', \<lparr>messages = [question, AIMessage c (Some [toolCall]),
                        ToolMessage (Output (Number 7)) (call_id toolCall) ''add'']\<rparr>),
       (''llmCall'', \<lparr>messages = [question, AIMessage c (Some [toolCall]),
                        ToolMessage (Output (Number 7)) (call_id toolCall) ''add'',
                        AIMessage (Text ''7'') tcs]\<rparr>)])"
proof -
  let ?s0 = "\<lparr>messages = [question]\<rparr>"
  let ?s1 = "\<lparr>messages = [question, AIMessage c (Some [toolCall])]\<rparr>"
  let ?tm = "ToolMessage (Output (Number 7)) (call_id toolCall) ''add''"
  let ?s2 = "\<lparr>messages = [question, AIMessage c (Some [toolCall]), ?tm]\<rparr>"
  let ?s3 = "\<lparr>messages = [question, AIMessage c (Some [toolCall]), ?tm, AIMessage (Text ''7'') tcs]\<rparr>"
  have hl: "has_length (Some [toolCall])" by (simp add: has_length_def)
  have a1: "append_messages ?s0 [AIMessage c (Some [toolCall])] = ?s1"
    by (simp add: append_messages_def)
  have a2: "append_messages ?s1 [?tm] = ?s2"
    by (simp add: append_messages_def)
  have a3: "append_messages ?s2 [AIMessage (Text ''7'') tcs] = ?s3"
    by (simp add: append_messages_def)
  have tn: "toolNode ?s1 = Inr [?tm]"
    using toolNode_ai [of ?s0 c "Some [toolCall]"] add_invoke_3_4 [OF name a b]
    by (simp add: a1 or_empty_def)
  have w3: "walk (agent llm) (Suc budget) ''llmCall'' (Suc 0) ?s2 = (Inr ?s3, [(''llmCall'', ?s3)])"
    using walk_llmCall_end [of llm "Suc 0" ?s2 "Text ''7''" tcs budget] second plain
    by (simp add: a3)
  have w2: "walk (agent llm) (Suc (Suc budget)) ''toolNode'' (Suc 0) ?s1
              = (Inr ?s3, [(''toolNode'', ?s2), (''llmCall'', ?s3)])"
    using walk_toolNode_ok [of ?s1 "[?tm]" llm "Suc budget" "Suc 0"] tn w3
    by (simp add: a2)
  have w1: "walk (agent llm) (Suc (Suc (Suc budget))) ''llmCall'' 0 ?s0
              = (Inr ?s3, [(''llmCall'', ?s1), (''toolNode'', ?s2), (''llmCall'', ?s3)])"
    using walk_llmCall_tool [of llm 0 ?s0 c "Some [toolCall]" "Suc (Suc budget)"] first hl w2
    by (simp add: a1)
  show ?thesis unfolding invoke_agent by (rule w1)
qed

lemma add_3_4_model_run:
  "invoke (agent add_3_4_model) 25 0 \<lparr>messages = [question]\<rparr> =
     (Inr \<lparr>messages = [question, AIMessage (Text []) (Some [add_3_4]),
                        ToolMessage (Output (Number 7)) ''call_1'' ''add'',
                        AIMessage (Text ''7'') (Some [])]\<rparr>,
      [(''llmCall'', \<lparr>messages = [question, AIMessage (Text []) (Some [add_3_4])]\<rparr>),
       (''toolNode'', \<lparr>messages = [question, AIMessage (Text []) (Some [add_3_4]),
                        ToolMessage (Output (Number 7)) ''call_1'' ''add'']\<rparr>),
       (''llmCall'', \<lparr>messages = [question, AIMessage (Text []) (Some [add_3_4]),
                        ToolMessage (Output (Number 7)) ''call_1'' ''add'',
                        AIMessage (Text ''7'') (Some [])]\<rparr>)])"
proof -
  have n: "(25::nat) = Suc (Suc (Suc 22))" by simp
  show ?thesis
    unfolding n
    using add_3_4_walk [of add_3_4_model "Text []" add_3_4 "Some []" 22]
    by (simp add: add_3_4_model_def scripted_def add_3_4_def has_length_def)
qed

text \<open>
  C3. From the state holding the one human message "Add 3 and 4.", with a model whose
  first answer carries the single pending call \<open>add(a=3, b=4)\<close> and whose second answer
  is "7" without tool calls, the walk executes \<open>llmCall\<close>, \<open>toolNode\<close>, \<open>llmCall\<close> and
  ends with exactly four messages: human, ai with the tool call, tool with 7 and the id
  of the call, ai "7". Whenever the tool node succeeds on an ai message, it returns one
  tool message per pending call, in order, each with the id of its call.
\<close>

theorem add_3_and_4_transcript:
  assumes first: "llm 0 [system_prompt, question] = Inr (c, Some [toolCall])"
    and name: "call_name toolCall = ''add''"
    and a: "call_args toolCall ''a'' = Some (JNum 3)"
    and b: "call_args toolCall ''b'' = Some (JNum 4)"
    and second: "llm 1 [system_prompt, question, AIMessage c (Some [toolCall]),
                   ToolMessage (Output (Number 7)) (call_id toolCall) ''add''] = Inr (Text ''7'', tcs)"
    and plain: "\<not> has_length tcs"
    and limit: "3 \<le> limit"
  shows "outcome (invoke (agent llm) limit 0 \<lparr>messages = [question]\<rparr>) =
           Inr \<lparr>messages = [question, AIMessage c (Some [toolCall]),
                              ToolMessage (Output (Number 7)) (call_id toolCall) ''add'',
                              AIMessage (Text ''7'') tcs]\<rparr>
         \<and> executed (invoke (agent llm) limit 0 \<lparr>messages = [question]\<rparr>)
             = [''llmCall'', ''toolNode'', ''llmCall'']
         \<and> (\<forall>state content calls update.
               at_last (messages state) = Some (AIMessage content (Some calls)) \<longrightarrow>
               toolNode state = Inr update \<longrightarrow>
               map tool_call_id update = map (\<lambda>call. Some (call_id call)) calls
               \<and> (\<forall>m \<in> set update. getType m = ''tool''))"
proof -
  from limit obtain budget where l: "limit = Suc (Suc (Suc budget))"
    by (metis Suc_le_D numeral_3_eq_3 Suc_le_mono)
  show ?thesis
    using add_3_4_walk [OF first name a b second plain, of budget] toolNode_result
    by (simp add: l outcome_def executed_def)
qed

theorem add_3_and_4_transcript_witness:
  "outcome (invoke (agent add_3_4_model) 25 0 \<lparr>messages = [question]\<rparr>) =
     Inr \<lparr>messages = [HumanMessage (Text ''Add 3 and 4.''), AIMessage (Text []) (Some [add_3_4]),
                        ToolMessage (Output (Number 7)) ''call_1'' ''add'',
                        AIMessage (Text ''7'') (Some [])]\<rparr>"
  using add_3_and_4_transcript [of add_3_4_model "Text []" add_3_4 "Some []" 25]
  by (simp add: add_3_4_model_def scripted_def add_3_4_def has_length_def question_def)


lemma length_cycles: "length (concat (replicate k [x, y])) = 2 * k"
  by (induction k) simp_all

lemma add_3_4_accepted: "accepted add_3_4"
  by (simp add: accepted_def add_3_4_def toolsByName_def add_def multiply_def divide_def two_numbers_def)

lemma add_3_4_model_script: "tool_calls_then_plain 0 (Suc 0) add_3_4_model"
  by (simp add: tool_calls_then_plain_def add_3_4_model_def scripted_def add_3_4_accepted has_length_def)

text \<open>
  C2 (as amended). If the model returns a tool-call-bearing ai message exactly \<open>k\<close> times,
  each with exactly one call that the tool node can serve, and then a plain ai message,
  and the step limit allows \<open>2k + 1\<close> steps, the walk ends after \<open>k\<close> cycles of \<open>toolNode\<close>
  and \<open>llmCall\<close>, and appends \<open>2k + 1\<close> messages to the initial transcript: \<open>k\<close> times an
  ai message followed by its tool result, then the final ai message.
\<close>

theorem tool_loop_cycles:
  assumes "tool_calls_then_plain 0 k llm" and "2 * k + 1 \<le> limit"
  shows "\<exists>final new.
           outcome (invoke (agent llm) limit 0 init) = Inr final
         \<and> messages final = messages init @ new
         \<and> length new = 2 * k + 1
         \<and> map getType new = concat (replicate k [''ai'', ''tool'']) @ [''ai'']
         \<and> executed (invoke (agent llm) limit 0 init)
             = ''llmCall'' # concat (replicate k [''toolNode'', ''llmCall''])"
proof -
  from agent_walk_cycles [OF assms, of init] obtain final new h where
    w: "walk (agent llm) limit ''llmCall'' 0 init = (Inr final, h)"
    and m: "messages final = messages init @ new"
    and t: "map getType new = concat (replicate k [''ai'', ''tool'']) @ [''ai'']"
    and e: "map fst h = ''llmCall'' # concat (replicate k [''toolNode'', ''llmCall''])"
    by (elim exE conjE)
  from t have "length (map getType new) = 2 * k + 1"
    by (simp add: length_cycles)
  then have l: "length new = 2 * k + 1" by simp
  show ?thesis
  proof (intro exI conjI)
    show "outcome (invoke (agent llm) limit 0 init) = Inr final"
      by (simp add: outcome_def invoke_agent w)
    show "messages final = messages init @ new" by (fact m)
    show "length new = 2 * k + 1" by (fact l)
    show "map getType new = concat (replicate k [''ai'', ''tool'']) @ [''ai'']" by (fact t)
    show "executed (invoke (agent llm) limit 0 init)
             = ''llmCall'' # concat (replicate k [''toolNode'', ''llmCall''])"
      by (simp add: executed_def invoke_agent w e)
  qed
qed

theorem tool_loop_cycles_witness:
  "tool_calls_then_plain 0 (Suc 0) add_3_4_model
   \<and> (\<exists>final new.
         outcome (invoke (agent add_3_4_model) 25 0 \<lparr>messages = [question]\<rparr>) = Inr final
       \<and> messages final = question # new
       \<and> length new = 3
       \<and> map getType new = [''ai'', ''tool'', ''ai'']
       \<and> executed (invoke (agent add_3_4_model) 25 0 \<lparr>messages = [question]\<rparr>)
           = [''llmCall'', ''toolNode'', ''llmCall''])"
  using tool_loop_cycles [OF add_3_4_model_script, of 25 "\<lparr>messages = [question]\<rparr>"]
  by (simp add: add_3_4_model_script)

theorem tool_loop_count_counterexample:
  "tool_calls_then_plain 0 1 add_3_4_model
   \<and> outcome (invoke (agent add_3_4_model) 25 0 \<lparr>messages = [question]\<rparr>)
       = Inr \<lparr>messages = [question, AIMessage (Text []) (Some [add_3_4]),
                            ToolMessage (Output (Number 7)) ''call_1'' ''add'',
                            AIMessage (Text ''7'') (Some [])]\<rparr>
   \<and> length [question, AIMessage (Text []) (Some [add_3_4]),
               ToolMessage (Output (Number 7)) ''call_1'' ''add'',
               AIMessage (Text ''7'') (Some [])]
       \<noteq> length [question] + (1 + 2 * 1 + 1)"
  using add_3_4_model_script
  by (simp add: add_3_4_model_run outcome_def)

text \<open>
  C9. On a state whose message list is empty or whose last message is not an ai message,
  the tool node succeeds with the empty update, the merge of that update leaves the state
  as it is, and \<open>shouldContinue\<close> answers \<open>END\<close>.
\<close>

theorem toolNode_without_ai_message:
  assumes "messages state = [] \<or> getType (last (messages state)) \<noteq> ''ai''"
  shows "toolNode state = Inr [] \<and> append_messages state [] = state \<and> shouldContinue state = END"
  using assms
  by (auto simp add: toolNode_def shouldContinue_def append_messages_def at_last_def)

theorem toolNode_without_ai_message_witness:
  "toolNode \<lparr>messages = [question]\<rparr> = Inr []
   \<and> append_messages \<lparr>messages = [question]\<rparr> [] = \<lparr>messages = [question]\<rparr>
   \<and> shouldContinue \<lparr>messages = [question]\<rparr> = END
   \<and> toolNode \<lparr>messages = []\<rparr> = Inr []
   \<and> shouldContinue \<lparr>messages = []\<rparr> = END"
  using toolNode_without_ai_message [of "\<lparr>messages = [question]\<rparr>"]
    toolNode_without_ai_message [of "\<lparr>messages = []\<rparr>"]
  by (simp add: question_def)

section \<open>Calls that the tool node cannot serve\<close>


lemma toolNode_loop_serves:
  "\<forall>call \<in> set before. accepted call \<Longrightarrow>
   \<exists>obs. \<forall>rest. toolNode_loop (before @ rest) acc = toolNode_loop rest (acc @ obs)"
proof (induction before arbitrary: acc)
  case Nil
  show ?case by (intro exI [of _ "[]"]) simp
next
  case (Cons toolCall before)
  from Cons.prems have "accepted toolCall" by simp
  then obtain t parsed where
    t: "toolsByName (call_name toolCall) = Some t"
    and p: "tool_schema t (call_args toolCall) = Some parsed"
    by (auto simp add: accepted_def split: option.splits)
  let ?m = "ToolMessage (Output (tool_body t parsed)) (call_id toolCall) (tool_name t)"
  from Cons.prems have "\<forall>call \<in> set before. accepted call" by simp
  from Cons.IH [OF this, of "acc @ [?m]"] obtain obs where
    obs: "\<forall>rest. toolNode_loop (before @ rest) (acc @ [?m]) = toolNode_loop rest ((acc @ [?m]) @ obs)"
    by (elim exE)
  show ?case
    by (intro exI [of _ "?m # obs"]) (simp add: t p tool_invoke_def obs)
qed

lemma toolNode_loop_rejects:
  "call \<in> set calls \<Longrightarrow> \<not> accepted call \<Longrightarrow> \<exists>e. toolNode_loop calls acc = Inl e"
proof (induction calls arbitrary: acc)
  case Nil
  then show ?case by simp
next
  case (Cons toolCall rest)
  show ?case
  proof (cases "toolNode_loop (toolCall # rest) acc")
    case (Inl e)
    then show ?thesis by simp
  next
    case (Inr r)
    then obtain t parsed where
      t: "toolsByName (call_name toolCall) = Some t"
      and p: "tool_schema t (call_args toolCall) = Some parsed"
      and r: "toolNode_loop rest (acc @ [ToolMessage (Output (tool_body t parsed)) (call_id toolCall) (tool_name t)]) = Inr r"
      by (auto simp add: tool_invoke_def split: option.splits sum.splits)
    from t p have "accepted toolCall" by (simp add: accepted_def)
    with Cons.prems have "call \<in> set rest" by auto
    from Cons.IH [OF this Cons.prems(2),
        of "acc @ [ToolMessage (Output (tool_body t parsed)) (call_id toolCall) (tool_name t)]"] r
    show ?thesis by simp
  qed
qed

lemma schema_rejects:
  "toolsByName (call_name toolCall) = Some t \<Longrightarrow> tool_schema t (call_args toolCall) = None \<Longrightarrow>
   toolNode_loop (toolCall # after) acc = Inl ValidationError"
  by (simp add: tool_invoke_def)

lemma registry_rejects:
  "toolsByName (call_name toolCall) = None \<Longrightarrow> toolNode_loop (toolCall # after) acc = Inl TypeError"
  by simp

text \<open>
  C4 (as amended). For a pending call that names a registered tool whose schema rejects
  the arguments, the body of the tool is not invoked (the result is the same whatever the
  body is), and the validation error is fatal at this layer: \<open>callTool\<close> fails with it,
  the tool node fails instead of appending a tool message, and the walk stops with the
  error after the model-call node, without a further model call.
\<close>

theorem schema_failure_is_fatal:
  assumes t: "toolsByName (call_name toolCall) = Some t"
    and p: "tool_schema t (call_args toolCall) = None"
  shows "(\<forall>body. tool_invoke (t\<lparr>tool_body := body\<rparr>) toolCall = Inl ValidationError)
       \<and> callTool toolCall = Inl ValidationError
       \<and> (\<forall>(state::MessagesState) c calls. at_last (messages state) = Some (AIMessage c (Some calls)) \<longrightarrow>
            toolCall \<in> set calls \<longrightarrow> (\<exists>e. toolNode state = Inl e))
       \<and> (\<forall>(state::MessagesState) c before after.
            at_last (messages state) = Some (AIMessage c (Some (before @ toolCall # after))) \<longrightarrow>
            (\<forall>call \<in> set before. accepted call) \<longrightarrow> toolNode state = Inl ValidationError)
       \<and> (\<forall>llm n (state::MessagesState) c budget.
            llm n (system_prompt # messages state) = Inr (c, Some [toolCall]) \<longrightarrow>
            walk (agent llm) (Suc (Suc budget)) ''llmCall'' n state
              = (Inl ValidationError,
                 [(''llmCall'', append_messages state [AIMessage c (Some [toolCall])])]))"
proof -
  have na: "\<not> accepted toolCall" by (simp add: accepted_def t p)
  have A: "\<forall>body. tool_invoke (t\<lparr>tool_body := body\<rparr>) toolCall = Inl ValidationError"
    by (simp add: tool_invoke_def p)
  have B: "callTool toolCall = Inl ValidationError"
    by (simp add: callTool_def t tool_invoke_def p)
  have C: "\<forall>(state::MessagesState) c calls. at_last (messages state) = Some (AIMessage c (Some calls)) \<longrightarrow>
            toolCall \<in> set calls \<longrightarrow> (\<exists>e. toolNode state = Inl e)"
    using toolNode_loop_rejects [OF _ na] by (simp add: toolNode_last_ai or_empty_def)
  have D: "\<forall>(state::MessagesState) c before after.
            at_last (messages state) = Some (AIMessage c (Some (before @ toolCall # after))) \<longrightarrow>
            (\<forall>call \<in> set before. accepted call) \<longrightarrow> toolNode state = Inl ValidationError"
  proof (intro allI impI)
    fix state :: MessagesState and c before after
    assume l: "at_last (messages state) = Some (AIMessage c (Some (before @ toolCall # after)))"
      and ok: "\<forall>call \<in> set before. accepted call"
    from toolNode_loop_serves [OF ok, of "[]"] obtain obs where
      "toolNode_loop (before @ toolCall # after) [] = toolNode_loop (toolCall # after) ([] @ obs)"
      by blast
    then show "toolNode state = Inl ValidationError"
      using schema_rejects [OF t p] by (simp add: toolNode_last_ai [OF l] or_empty_def)
  qed
  have E: "\<forall>llm n (state::MessagesState) c budget.
            llm n (system_prompt # messages state) = Inr (c, Some [toolCall]) \<longrightarrow>
            walk (agent llm) (Suc (Suc budget)) ''llmCall'' n state
              = (Inl ValidationError,
                 [(''llmCall'', append_messages state [AIMessage c (Some [toolCall])])])"
  proof (intro allI impI)
    fix llm :: llm and n and state :: MessagesState and c budget
    assume r: "llm n (system_prompt # messages state) = Inr (c, Some [toolCall])"
    have hl: "has_length (Some [toolCall])" by (simp add: has_length_def)
    have tn: "toolNode (append_messages state [AIMessage c (Some [toolCall])]) = Inl ValidationError"
      using schema_rejects [OF t p, of "[]" "[]"] by (simp add: toolNode_ai or_empty_def)
    show "walk (agent llm) (Suc (Suc budget)) ''llmCall'' n state
              = (Inl ValidationError,
                 [(''llmCall'', append_messages state [AIMessage c (Some [toolCall])])])"
      using walk_llmCall_tool [of llm n state c "Some [toolCall]" "Suc budget"] r hl
        walk_toolNode_fail [OF tn, of llm budget "Suc n"]
      by simp
  qed
  from A B C D E show ?thesis by (intro conjI)
qed

lemma add_three_4_rejected:
  "toolsByName (call_name add_three_4) = Some add" "tool_schema add (call_args add_three_4) = None"
  by (simp_all add: add_three_4_def toolsByName_def add_def multiply_def divide_def two_numbers_def)

theorem schema_failure_is_fatal_witness:
  "callTool add_three_4 = Inl ValidationError
   \<and> toolNode \<lparr>messages = [question, AIMessage (Text []) (Some [add_three_4])]\<rparr> = Inl ValidationError
   \<and> walk (agent (scripted [(Text [], Some [add_three_4]), (Text ''7'', Some [])])) 25 ''llmCall'' 0
        \<lparr>messages = [question]\<rparr>
      = (Inl ValidationError, [(''llmCall'', \<lparr>messages = [question, AIMessage (Text []) (Some [add_three_4])]\<rparr>)])"
proof -
  note th = schema_failure_is_fatal [OF add_three_4_rejected]
  have n: "(25::nat) = Suc (Suc 23)" by simp
  from th have "callTool add_three_4 = Inl ValidationError" by (elim conjE)
  moreover from th have "\<forall>(state::MessagesState) c before after.
            at_last (messages state) = Some (AIMessage c (Some (before @ add_three_4 # after))) \<longrightarrow>
            (\<forall>call \<in> set before. accepted call) \<longrightarrow> toolNode state = Inl ValidationError"
    by (elim conjE)
  then have "toolNode \<lparr>messages = [question, AIMessage (Text []) (Some [add_three_4])]\<rparr> = Inl ValidationError"
    using at_last_snoc [of "[question]" "AIMessage (Text []) (Some [add_three_4])"]
    by (elim allE [of _ "\<lparr>messages = [question, AIMessage (Text []) (Some [add_three_4])]\<rparr>"]
          allE [of _ "Text []"] allE [of _ "[]"]) simp
  moreover from th have "\<forall>llm n (state::MessagesState) c budget.
            llm n (system_prompt # messages state) = Inr (c, Some [add_three_4]) \<longrightarrow>
            walk (agent llm) (Suc (Suc budget)) ''llmCall'' n state
              = (Inl ValidationError,
                 [(''llmCall'', append_messages state [AIMessage c (Some [add_three_4])])])"
    by (elim conjE)
  then have "walk (agent (scripted [(Text [], Some [add_three_4]), (Text ''7'', Some [])])) (Suc (Suc 23)) ''llmCall'' 0
        \<lparr>messages = [question]\<rparr>
      = (Inl ValidationError, [(''llmCall'', append_messages \<lparr>messages = [question]\<rparr> [AIMessage (Text []) (Some [add_three_4])])])"
    by (elim allE [of _ "scripted [(Text [], Some [add_three_4]), (Text ''7'', Some [])]"]
          allE [of _ "0::nat"] allE [of _ "\<lparr>messages = [question]\<rparr>"] allE [of _ "Text []"] allE [of _ "23::nat"])
       (simp add: scripted_def)
  ultimately show ?thesis
    unfolding n by (simp add: append_messages_def)
qed

theorem schema_failure_counterexample:
  "toolsByName (call_name add_three_4) = Some add
   \<and> tool_schema add (call_args add_three_4) = None
   \<and> toolNode \<lparr>messages = [question, AIMessage (Text []) (Some [add_three_4])]\<rparr> = Inl ValidationError
   \<and> outcome (invoke (agent (scripted [(Text [], Some [add_three_4]), (Text ''7'', Some [])])) 25 0
        \<lparr>messages = [question]\<rparr>) = Inl ValidationError"
proof -
  have n: "(25::nat) = Suc (Suc 23)" by simp
  have hl: "has_length (Some [add_three_4])" by (simp add: has_length_def)
  have tn: "toolNode \<lparr>messages = [question, AIMessage (Text []) (Some [add_three_4])]\<rparr> = Inl ValidationError"
    using schema_rejects [OF add_three_4_rejected, of "[]" "[]"]
      toolNode_last_ai [of "\<lparr>messages = [question, AIMessage (Text []) (Some [add_three_4])]\<rparr>" "Text []" "Some [add_three_4]"]
      at_last_snoc [of "[question]" "AIMessage (Text []) (Some [add_three_4])"]
    by (simp add: or_empty_def)
  have "walk (agent (scripted [(Text [], Some [add_three_4]), (Text ''7'', Some [])])) (Suc (Suc 23)) ''llmCall'' 0
        \<lparr>messages = [question]\<rparr> = (Inl ValidationError, [(''llmCall'', \<lparr>messages = [question, AIMessage (Text []) (Some [add_three_4])]\<rparr>)])"
    using walk_llmCall_tool [of "scripted [(Text [], Some [add_three_4]), (Text ''7'', Some [])]" 0
        "\<lparr>messages = [question]\<rparr>" "Text []" "Some [add_three_4]" "Suc 23"] hl
      walk_toolNode_fail [of "\<lparr>messages = [question, AIMessage (Text []) (Some [add_three_4])]\<rparr>" ValidationError
        "scripted [(Text [], Some [add_three_4]), (Text ''7'', Some [])]" 23 "Suc 0"] tn
    by (simp add: scripted_def append_messages_def)
  then show ?thesis
    unfolding n by (simp only: add_three_4_rejected tn invoke_agent outcome_def fst_conv simp_thms)
qed


lemma dom_toolsByName: "dom toolsByName = {''add'', ''multiply'', ''divide''}"
  by (auto simp add: toolsByName_def add_def multiply_def divide_def)

text \<open>
  C10 (as amended). The registry holds \<open>add\<close>, \<open>multiply\<close> and \<open>divide\<close>. If every
  pending call of the latest ai message names a registered tool and carries arguments that
  the schema of the tool accepts, the tool node succeeds with one tool message per call;
  a pending call whose name is not registered makes the node fail, with the \<open>TypeError\<close>
  of the empty registry lookup when the calls before it were served, and no tool message
  is appended.
\<close>

theorem registered_calls_succeed:
  assumes l: "at_last (messages state) = Some (AIMessage c (Some calls))"
  shows "dom toolsByName = {''add'', ''multiply'', ''divide''}
       \<and> ((\<forall>call \<in> set calls. accepted call) \<longrightarrow>
            (\<exists>update. toolNode state = Inr update
               \<and> map tool_call_id update = map (\<lambda>call. Some (call_id call)) calls))
       \<and> (\<forall>call. call \<in> set calls \<longrightarrow> toolsByName (call_name call) = None \<longrightarrow>
            (\<exists>e. toolNode state = Inl e) \<and> callTool call = Inl TypeError)
       \<and> (\<forall>before call after. calls = before @ call # after \<longrightarrow>
            (\<forall>earlier \<in> set before. accepted earlier) \<longrightarrow>
            toolsByName (call_name call) = None \<longrightarrow> toolNode state = Inl TypeError)"
proof -
  have tn: "toolNode state = toolNode_loop calls []"
    by (simp add: toolNode_last_ai [OF l] or_empty_def)
  have B: "(\<forall>call \<in> set calls. accepted call) \<longrightarrow>
            (\<exists>update. toolNode state = Inr update
               \<and> map tool_call_id update = map (\<lambda>call. Some (call_id call)) calls)"
  proof
    assume "\<forall>call \<in> set calls. accepted call"
    from toolNode_loop_accepted [OF this, of "[]"] obtain r where r: "toolNode_loop calls [] = Inr r"
      by (elim exE)
    with toolNode_loop_result [OF r] show "\<exists>update. toolNode state = Inr update
               \<and> map tool_call_id update = map (\<lambda>call. Some (call_id call)) calls"
      by (auto simp add: tn)
  qed
  have C: "\<forall>call. call \<in> set calls \<longrightarrow> toolsByName (call_name call) = None \<longrightarrow>
            (\<exists>e. toolNode state = Inl e) \<and> callTool call = Inl TypeError"
  proof (intro allI impI)
    fix call
    assume i: "call \<in> set calls" and u: "toolsByName (call_name call) = None"
    from u have "\<not> accepted call" by (simp add: accepted_def)
    from toolNode_loop_rejects [OF i this, of "[]"] u
    show "(\<exists>e. toolNode state = Inl e) \<and> callTool call = Inl TypeError"
      by (simp add: tn callTool_def)
  qed
  have D: "\<forall>before call after. calls = before @ call # after \<longrightarrow>
            (\<forall>earlier \<in> set before. accepted earlier) \<longrightarrow>
            toolsByName (call_name call) = None \<longrightarrow> toolNode state = Inl TypeError"
  proof (intro allI impI)
    fix before call after
    assume c: "calls = before @ call # after"
      and ok: "\<forall>earlier \<in> set before. accepted earlier"
      and u: "toolsByName (call_name call) = None"
    from toolNode_loop_serves [OF ok, of "[]"] obtain obs where
      "toolNode_loop (before @ call # after) [] = toolNode_loop (call # after) ([] @ obs)"
      by blast
    then show "toolNode state = Inl TypeError"
      using registry_rejects [OF u] by (simp add: tn c)
  qed
  from dom_toolsByName B C D show ?thesis by (intro conjI)
qed

lemma subtract_9_2_unregistered: "toolsByName (call_name subtract_9_2) = None"
  by (simp add: subtract_9_2_def toolsByName_def add_def multiply_def divide_def)

theorem registered_calls_succeed_witness:
  "(\<exists>update. toolNode \<lparr>messages = [question, AIMessage (Text []) (Some [add_3_4])]\<rparr> = Inr update
       \<and> map tool_call_id update = [Some ''call_1''])
   \<and> toolNode \<lparr>messages = [question, AIMessage (Text []) (Some [add_3_4, subtract_9_2])]\<rparr> = Inl TypeError
   \<and> callTool subtract_9_2 = Inl TypeError"
proof -
  have l1: "at_last (messages \<lparr>messages = [question, AIMessage (Text []) (Some [add_3_4])]\<rparr>)
              = Some (AIMessage (Text []) (Some [add_3_4]))"
    using at_last_snoc [of "[question]"] by simp
  have l2: "at_last (messages \<lparr>messages = [question, AIMessage (Text []) (Some [add_3_4, subtract_9_2])]\<rparr>)
              = Some (AIMessage (Text []) (Some [add_3_4, subtract_9_2]))"
    using at_last_snoc [of "[question]"] by simp
  from registered_calls_succeed [OF l1]
  have "(\<forall>call \<in> set [add_3_4]. accepted call) \<longrightarrow>
            (\<exists>update. toolNode \<lparr>messages = [question, AIMessage (Text []) (Some [add_3_4])]\<rparr> = Inr update
               \<and> map tool_call_id update = map (\<lambda>call. Some (call_id call)) [add_3_4])"
    by (elim conjE)
  then have A: "\<exists>update. toolNode \<lparr>messages = [question, AIMessage (Text []) (Some [add_3_4])]\<rparr> = Inr update
       \<and> map tool_call_id update = [Some ''call_1'']"
    by (simp add: add_3_4_accepted) (simp add: add_3_4_def)
  note th = registered_calls_succeed [OF l2]
  from th have X: "\<forall>call. call \<in> set [add_3_4, subtract_9_2] \<longrightarrow> toolsByName (call_name call) = None \<longrightarrow>
            (\<exists>e. toolNode \<lparr>messages = [question, AIMessage (Text []) (Some [add_3_4, subtract_9_2])]\<rparr> = Inl e)
            \<and> callTool call = Inl TypeError"
    by (elim conjE)
  from th have Y: "\<forall>before call after. [add_3_4, subtract_9_2] = before @ call # after \<longrightarrow>
            (\<forall>earlier \<in> set before. accepted earlier) \<longrightarrow>
            toolsByName (call_name call) = None \<longrightarrow>
            toolNode \<lparr>messages = [question, AIMessage (Text []) (Some [add_3_4, subtract_9_2])]\<rparr> = Inl TypeError"
    by (elim conjE)
  have B: "toolNode \<lparr>messages = [question, AIMessage (Text []) (Some [add_3_4, subtract_9_2])]\<rparr> = Inl TypeError"
    using Y [rule_format, of "[add_3_4]" subtract_9_2 "[]"] subtract_9_2_unregistered add_3_4_accepted
    by simp
  have C: "callTool subtract_9_2 = Inl TypeError"
    using X [rule_format, of subtract_9_2] subtract_9_2_unregistered
    by simp
  from A B C show ?thesis by (intro conjI)
qed

lemma multiply_6_rejected:
  "toolsByName (call_name multiply_6) = Some multiply" "tool_schema multiply (call_args multiply_6) = None"
  by (simp_all add: multiply_6_def toolsByName_def add_def multiply_def divide_def two_numbers_def)

theorem registered_call_counterexample:
  "call_name multiply_6 \<in> dom toolsByName
   \<and> toolNode \<lparr>messages = [question, AIMessage (Text []) (Some [multiply_6])]\<rparr> = Inl ValidationError
   \<and> callTool multiply_6 = Inl ValidationError"
proof -
  have "toolNode \<lparr>messages = [question, AIMessage (Text []) (Some [multiply_6])]\<rparr> = Inl ValidationError"
    using schema_rejects [OF multiply_6_rejected, of "[]" "[]"]
      toolNode_last_ai [of "\<lparr>messages = [question, AIMessage (Text []) (Some [multiply_6])]\<rparr>" "Text []" "Some [multiply_6]"]
      at_last_snoc [of "[question]" "AIMessage (Text []) (Some [multiply_6])"]
    by (simp add: or_empty_def)
  moreover have "callTool multiply_6 = Inl ValidationError"
    by (simp add: callTool_def multiply_6_rejected tool_invoke_def)
  moreover have "call_name multiply_6 \<in> dom toolsByName"
    using multiply_6_rejected(1) by blast
  ultimately show ?thesis by (intro conjI)
qed

section \<open>The step limit\<close>


lemma resolve_back:
  "map_of (edges g) n = Some (Conditional route mapping) \<Longrightarrow>
   \<forall>s. map_of mapping (route s) = Some n \<Longrightarrow> resolve_next (edges g) n s = Inr n"
  by (simp add: resolve_next_def)

lemma walk_cycle_fails:
  assumes e: "map_of (edges g) n = Some (Conditional route mapping)"
    and cyc: "\<forall>s. map_of mapping (route s) = Some n"
    and ne: "n \<noteq> END"
  shows "(\<exists>err. fst (walk g budget n w s) = Inl err) \<and> length (snd (walk g budget n w s)) \<le> budget"
proof (induction budget arbitrary: w s)
  case 0
  show ?case by simp
next
  case (Suc budget)
  show ?case
  proof (cases "map_of (nodes g) n")
    case None
    then show ?thesis by simp
  next
    case (Some node)
    show ?thesis
    proof (cases "node w s")
      case (Inl err)
      with Some show ?thesis by simp
    next
      case (Inr r)
      obtain u w' where r: "r = (u, w')" by (cases r)
      from Suc.IH [of w' "reducer g s u"] show ?thesis
        by (simp add: Some Inr r resolve_back [OF e cyc] ne Let_def case_prod_beta)
    qed
  qed
qed

lemma walk_cycle_limit:
  assumes node: "map_of (nodes g) n = Some node"
    and ok: "\<forall>w s. \<exists>u w'. node w s = Inr (u, w')"
    and e: "map_of (edges g) n = Some (Conditional route mapping)"
    and cyc: "\<forall>s. map_of mapping (route s) = Some n"
    and ne: "n \<noteq> END"
  shows "fst (walk g budget n w s) = Inl StepLimitExceeded
       \<and> map fst (snd (walk g budget n w s)) = replicate budget n"
proof (induction budget arbitrary: w s)
  case 0
  show ?case by simp
next
  case (Suc budget)
  from ok obtain u w' where r: "node w s = Inr (u, w')" by blast
  from Suc.IH [of w' "reducer g s u"] show ?case
    by (simp add: node r resolve_back [OF e cyc] ne Let_def case_prod_beta)
qed

text \<open>
  C6. In a graph with a node whose conditional edge leads back to the node whatever the
  state, a walk that has reached the node never returns a final state: it fails, after
  at most as many node executions as the step limit still allows. If the node itself
  never fails, the failure is \<open>StepLimitExceeded\<close>, after exactly that many executions of
  the node. In particular, when the node is the entry of the graph, \<open>invoke\<close> with the
  limit \<open>limit\<close> fails with \<open>StepLimitExceeded\<close> after exactly \<open>limit\<close> executions.
\<close>

theorem cyclic_routing_hits_step_limit:
  assumes ne: "n \<noteq> END"
    and node: "map_of (nodes g) n = Some node"
    and e: "map_of (edges g) n = Some (Conditional route mapping)"
    and cyc: "\<forall>s. map_of mapping (route s) = Some n"
  shows "(\<exists>err. outcome (walk g limit n w s) = Inl err)
       \<and> length (executed (walk g limit n w s)) \<le> limit
       \<and> ((\<forall>w s. \<exists>u w'. node w s = Inr (u, w')) \<longrightarrow>
            outcome (walk g limit n w s) = Inl StepLimitExceeded
            \<and> executed (walk g limit n w s) = replicate limit n)
       \<and> (map_of (edges g) START = Some (Static n) \<longrightarrow>
            invoke g limit w s = walk g limit n w s)"
proof -
  have i: "map_of (edges g) START = Some (Static n) \<longrightarrow> invoke g limit w s = walk g limit n w s"
    by (simp add: invoke_def resolve_next_def ne)
  show ?thesis
    using walk_cycle_fails [OF e cyc ne, of limit w s]
      walk_cycle_limit [OF node _ e cyc ne, of limit w s] i
    by (simp add: outcome_def executed_def)
qed

theorem cyclic_routing_hits_step_limit_witness:
  "outcome (invoke spinning 50 () 0) = Inl StepLimitExceeded
   \<and> executed (invoke spinning 50 () 0) = replicate 50 ''spin''
   \<and> length (executed (invoke spinning 50 () 0)) = 50"
proof -
  have "outcome (invoke spinning 50 () 0) = Inl StepLimitExceeded
     \<and> executed (invoke spinning 50 () 0) = replicate 50 ''spin''"
    using cyclic_routing_hits_step_limit [of "''spin''" spinning "\<lambda>w count. Inr (1, w)"
        "\<lambda>count. ''again''" "[(''again'', ''spin'')]" 50 "()" 0]
    by (simp add: spinning_def START_def END_def)
  then show ?thesis by simp
qed

section \<open>The message channel only grows\<close>

lemma walk_snapshots_extend:
  "reducer g = append_messages \<Longrightarrow> s' \<in> set (map snd (snd (walk g budget current w s))) \<Longrightarrow>
   prefix (messages s) (messages s')"
proof (induction budget arbitrary: current w s)
  case 0
  then show ?case by simp
next
  case (Suc budget)
  show ?case
  proof (cases "map_of (nodes g) current")
    case None
    with Suc.prems show ?thesis by simp
  next
    case (Some node)
    show ?thesis
    proof (cases "node w s")
      case (Inl err)
      with Some Suc.prems show ?thesis by simp
    next
      case (Inr r)
      obtain u w' where r: "r = (u, w')" by (cases r)
      let ?s1 = "append_messages s u"
      have p1: "prefix (messages s) (messages ?s1)" by (simp add: append_messages_def)
      show ?thesis
      proof (cases "resolve_next (edges g) current ?s1")
        case (Inl err)
        with Suc.prems Some Inr r p1 show ?thesis by (simp add: Let_def)
      next
        case nx: (Inr nxt)
        show ?thesis
        proof (cases "nxt = END")
          case True
          with Suc.prems Some Inr r p1 nx show ?thesis by (simp add: Let_def)
        next
          case False
          with Suc.prems Some Inr r nx
          have "s' = ?s1 \<or> s' \<in> set (map snd (snd (walk g budget nxt w' ?s1)))"
            by (auto simp add: Let_def case_prod_beta)
          then show ?thesis
          proof
            assume "s' = ?s1"
            with p1 show ?thesis by simp
          next
            assume "s' \<in> set (map snd (snd (walk g budget nxt w' ?s1)))"
            from Suc.IH [OF Suc.prems(1) this] p1 show ?thesis
              by (rule prefix_order.trans [rotated])
          qed
        qed
      qed
    qed
  qed
qed


lemma walk_final_last:
  "fst (walk g budget current w s) = Inr final \<Longrightarrow>
   snd (walk g budget current w s) \<noteq> [] \<and> final = snd (last (snd (walk g budget current w s)))"
proof (induction budget arbitrary: current w s)
  case 0
  then show ?case by simp
next
  case (Suc budget)
  show ?case
  proof (cases "map_of (nodes g) current")
    case None
    with Suc.prems show ?thesis by simp
  next
    case (Some node)
    show ?thesis
    proof (cases "node w s")
      case (Inl err)
      with Some Suc.prems show ?thesis by simp
    next
      case (Inr r)
      obtain u w' where r: "r = (u, w')" by (cases r)
      let ?s1 = "reducer g s u"
      show ?thesis
      proof (cases "resolve_next (edges g) current ?s1")
        case (Inl err)
        with Suc.prems Some Inr r show ?thesis by (simp add: Let_def)
      next
        case nx: (Inr nxt)
        show ?thesis
        proof (cases "nxt = END")
          case True
          with Suc.prems Some Inr r nx show ?thesis by (auto simp add: Let_def)
        next
          case False
          with Suc.prems Some Inr r nx
          have "fst (walk g budget nxt w' ?s1) = Inr final"
            by (simp add: Let_def case_prod_beta)
          from Suc.IH [OF this] False Some Inr r nx show ?thesis
            by (simp add: Let_def case_prod_beta)
        qed
      qed
    qed
  qed
qed

lemma walk_final_extends:
  assumes "reducer g = append_messages" and "fst (walk g budget current w s) = Inr final"
  shows "prefix (messages s) (messages final)"
proof -
  from walk_final_last [OF assms(2)]
  have "final \<in> set (map snd (snd (walk g budget current w s)))"
    by (metis last_in_set last_map list.map_disc_iff)
  from walk_snapshots_extend [OF assms(1) this] show ?thesis .
qed

lemma walk_snapshots_chain:
  "reducer g = append_messages \<Longrightarrow>
   sorted_wrt (\<lambda>a b. prefix (messages a) (messages b)) (s # map snd (snd (walk g budget current w s)))"
proof (induction budget arbitrary: current w s)
  case 0
  then show ?case by simp
next
  case (Suc budget)
  have all: "\<forall>s' \<in> set (map snd (snd (walk g (Suc budget) current w s))). prefix (messages s) (messages s')"
    using walk_snapshots_extend [OF Suc.prems] by blast
  have rest: "sorted_wrt (\<lambda>a b. prefix (messages a) (messages b)) (map snd (snd (walk g (Suc budget) current w s)))"
  proof (cases "map_of (nodes g) current")
    case None
    then show ?thesis by simp
  next
    case (Some node)
    show ?thesis
    proof (cases "node w s")
      case (Inl err)
      with Some show ?thesis by simp
    next
      case (Inr r)
      obtain u w' where r: "r = (u, w')" by (cases r)
      let ?s1 = "reducer g s u"
      show ?thesis
      proof (cases "resolve_next (edges g) current ?s1")
        case (Inl err)
        with Some Inr r show ?thesis by (simp add: Let_def)
      next
        case nx: (Inr nxt)
        show ?thesis
        proof (cases "nxt = END")
          case True
          with Some Inr r nx show ?thesis by (simp add: Let_def)
        next
          case False
          have "map snd (snd (walk g (Suc budget) current w s))
                 = ?s1 # map snd (snd (walk g budget nxt w' ?s1))"
            using False Some Inr r nx by (simp add: Let_def case_prod_beta)
          with Suc.IH [OF Suc.prems, of ?s1 nxt w'] show ?thesis by simp
        qed
      qed
    qed
  qed
  from all rest show ?case by simp
qed

text \<open>
  On the run of graph.ts the entrypoint of functional.ts returns the transcript as it was
  when the last model call was made: the final answer of the model is not in it.
\<close>

lemma callTool_add_3_4:
  "callTool add_3_4 = Inr (ToolMessage (Output (Number 7)) ''call_1'' ''add'')"
  by (simp add: callTool_def add_3_4_def toolsByName_def add_def multiply_def divide_def
      tool_invoke_def two_numbers_def)

lemma functional_agent_add_3_4:
  "functional_agent add_3_4_model (Suc (Suc fuel)) [question] =
     Some (Inr [question, AIMessage (Text []) (Some [add_3_4]),
                ToolMessage (Output (Number 7)) ''call_1'' ''add''])"
  by (simp add: functional_agent_def callLlm_def add_3_4_model_def scripted_def has_length_def
      or_empty_def Promise_all_def callTool_add_3_4 addMessages_def)

lemma agent_loop_extends:
  "agent_loop llm fuel n msgs modelResponse = Some (Inr result) \<Longrightarrow> prefix msgs result"
proof (induction fuel arbitrary: n msgs modelResponse)
  case 0
  then show ?case by simp
next
  case (Suc fuel)
  show ?case
  proof (cases "has_length (snd modelResponse)")
    case False
    with Suc.prems show ?thesis by simp
  next
    case True
    with Suc.prems obtain toolResults modelResponse' where
      "agent_loop llm fuel (Suc n)
         (addMessages msgs (AIMessage (fst modelResponse) (snd modelResponse) # toolResults))
         modelResponse' = Some (Inr result)"
      by (auto simp add: Let_def split: option.splits sum.splits)
    from Suc.IH [OF this] show ?thesis
      by (auto simp add: addMessages_def dest: append_prefixD)
  qed
qed

text \<open>
  C8. The merge of an update concatenates the returned messages onto the transcript.
  In every walk of the agent the initial message list is a prefix of the transcript after
  each step, each transcript is a prefix of the later ones, and the initial list is a
  prefix of the final transcript; the list that the functional agent returns starts with
  the list it was given.
\<close>

theorem message_channel_append_only:
  "messages (append_messages state update) = messages state @ update
   \<and> (\<forall>s \<in> set (snapshots (invoke (agent llm) limit n init)). prefix (messages init) (messages s))
   \<and> sorted_wrt (\<lambda>a b. prefix (messages a) (messages b))
        (init # snapshots (invoke (agent llm) limit n init))
   \<and> (\<forall>final. outcome (invoke (agent llm) limit n init) = Inr final \<longrightarrow>
         prefix (messages init) (messages final))
   \<and> (\<forall>result. functional_agent llm fuel (messages init) = Some (Inr result) \<longrightarrow>
         prefix (messages init) result)"
proof -
  have A: "messages (append_messages state update) = messages state @ update"
    by (simp add: append_messages_def)
  have B: "\<forall>s \<in> set (snapshots (invoke (agent llm) limit n init)). prefix (messages init) (messages s)"
    using walk_snapshots_extend [OF reducer_agent, of _ llm limit "''llmCall''" n init]
    by (simp only: invoke_agent snapshots_def) blast
  have C: "sorted_wrt (\<lambda>a b. prefix (messages a) (messages b))
        (init # snapshots (invoke (agent llm) limit n init))"
    using walk_snapshots_chain [OF reducer_agent, of init llm limit "''llmCall''" n]
    by (simp only: invoke_agent snapshots_def)
  have D: "\<forall>final. outcome (invoke (agent llm) limit n init) = Inr final \<longrightarrow>
         prefix (messages init) (messages final)"
    using walk_final_extends [OF reducer_agent, of llm limit "''llmCall''" n init]
    by (simp only: invoke_agent outcome_def) blast
  have E: "\<forall>result. functional_agent llm fuel (messages init) = Some (Inr result) \<longrightarrow>
         prefix (messages init) result"
    using agent_loop_extends [of llm fuel 1 "messages init"]
    by (auto simp add: functional_agent_def split: sum.splits)
  from A B C D E show ?thesis by (intro conjI)
qed

theorem message_channel_append_only_witness:
  "outcome (invoke (agent add_3_4_model) 25 0 \<lparr>messages = [question]\<rparr>)
     = Inr \<lparr>messages = [question, AIMessage (Text []) (Some [add_3_4]),
                          ToolMessage (Output (Number 7)) ''call_1'' ''add'',
                          AIMessage (Text ''7'') (Some [])]\<rparr>
   \<and> prefix [question] [question, AIMessage (Text []) (Some [add_3_4]),
                          ToolMessage (Output (Number 7)) ''call_1'' ''add'',
                          AIMessage (Text ''7'') (Some [])]"
proof -
  note th = message_channel_append_only [of "\<lparr>messages = [question]\<rparr>" "[]" add_3_4_model 25 0 "\<lparr>messages = [question]\<rparr>" 0]
  from th have "\<forall>final. outcome (invoke (agent add_3_4_model) 25 0 \<lparr>messages = [question]\<rparr>) = Inr final \<longrightarrow>
         prefix (messages \<lparr>messages = [question]\<rparr>) (messages final)"
    by (elim conjE)
  then show ?thesis
    by (simp add: add_3_4_model_run outcome_def)
qed

section \<open>The fan-out stage\<close>


lemma settle_fulfilled:
  "length slots = length results \<Longrightarrow>
   \<forall>i<length results. slots ! i = None \<or> slots ! i = Some (results ! i) \<Longrightarrow>
   \<forall>i<length results. i \<in> set order \<or> slots ! i \<noteq> None \<Longrightarrow>
   settle order (map Inr results) slots = Some (Inr results)"
proof (induction order arbitrary: slots)
  case Nil
  have full: "\<forall>i<length results. slots ! i = Some (results ! i)"
  proof (intro allI impI)
    fix i
    assume "i < length results"
    with Nil.prems(2,3) have "slots ! i = None \<or> slots ! i = Some (results ! i)" "slots ! i \<noteq> None"
      by simp_all
    then show "slots ! i = Some (results ! i)" by blast
  qed
  with Nil.prems(1) have "list_all (\<lambda>slot. slot \<noteq> None) slots"
    by (simp add: list_all_length)
  moreover from full Nil.prems(1) have "map the slots = results"
    by (intro nth_equalityI) simp_all
  ultimately show ?case by simp
next
  case (Cons i order)
  show ?case
  proof (cases "length results \<le> i")
    case True
    with Cons.prems(3) have "\<forall>j<length results. j \<in> set order \<or> slots ! j \<noteq> None"
      by auto
    from Cons.IH [OF Cons.prems(1,2) this] True show ?thesis by simp
  next
    case False
    let ?slots = "slots[i := Some (results ! i)]"
    have l: "length ?slots = length results" using Cons.prems(1) by simp
    have v: "\<forall>j<length results. ?slots ! j = None \<or> ?slots ! j = Some (results ! j)"
    proof (intro allI impI)
      fix j
      assume j: "j < length results"
      with Cons.prems(2) have "slots ! j = None \<or> slots ! j = Some (results ! j)" by simp
      with j Cons.prems(1) show "?slots ! j = None \<or> ?slots ! j = Some (results ! j)"
        by (cases "j = i") simp_all
    qed
    have c: "\<forall>j<length results. j \<in> set order \<or> ?slots ! j \<noteq> None"
    proof (intro allI impI)
      fix j
      assume j: "j < length results"
      with Cons.prems(3) have "j \<in> set (i # order) \<or> slots ! j \<noteq> None" by simp
      with j Cons.prems(1) show "j \<in> set order \<or> ?slots ! j \<noteq> None"
        by (cases "j = i") auto
    qed
    from Cons.IH [OF l v c] False show ?thesis by simp
  qed
qed

lemma Promise_all_fulfilled:
  "{0..<length results} \<subseteq> set order \<Longrightarrow> Promise_all order (map Inr results) = Some (Inr results)"
  unfolding Promise_all_def
  by (rule settle_fulfilled) auto

lemma Object_assign_three:
  "Object_assign Map.empty [first, second, third] = first ++ second ++ third"
  by (simp add: Object_assign_def)

lemma enrichDataNode_value:
  assumes "{0, 1, 2} \<subseteq> set order"
  shows "enrichDataNode state random order =
     Some (Inr [''sentiment'' \<mapsto> JStr (if random > 0.5 then ''positive'' else ''neutral''),
                ''complexity'' \<mapsto> JStr (if length (input state) > 20 then ''high'' else ''low''),
                ''tags'' \<mapsto> JArr [JStr ''processed'', category state, JStr ''v1'']])"
proof -
  let ?results = "[[''sentiment'' \<mapsto> JStr (if random > 0.5 then ''positive'' else ''neutral'')],
                   [''complexity'' \<mapsto> JStr (if length (input state) > 20 then ''high'' else ''low'')],
                   [''tags'' \<mapsto> JArr [JStr ''processed'', category state, JStr ''v1'']]]"
  have "{0..<length ?results} = {0, 1, 2}"
    by (auto simp add: less_Suc_eq numeral_2_eq_2)
  with assms have "{0..<length ?results} \<subseteq> set order" by (simp only:)
  from Promise_all_fulfilled [OF this]
  have "Promise_all order (map Inr ?results) = Some (Inr ?results)" .
  then show ?thesis
    by (simp add: enrichDataNode_def Object_assign_three)
qed

text \<open>
  C5 (as amended). Once all three sub-tasks have settled, in whatever order, the update of
  the fan-out stage is one fixed function of the input state and of the number that
  \<open>Math.random()\<close> gave the sentiment sub-task: the complexity and the tags are determined
  by the state alone, the sentiment by the random number. \<open>Promise.all\<close> hands the
  results over in declaration order whatever the order of completion, and \<open>Object.assign\<close>
  merges them in that order, so that where two sub-tasks write the same key the value of
  the later-declared one wins.
\<close>

theorem fan_out_merges_in_declaration_order:
  assumes "{0, 1, 2} \<subseteq> set order"
  shows "enrichDataNode state random order =
           Some (Inr [''sentiment'' \<mapsto> JStr (if random > 0.5 then ''positive'' else ''neutral''),
                      ''complexity'' \<mapsto> JStr (if length (input state) > 20 then ''high'' else ''low''),
                      ''tags'' \<mapsto> JArr [JStr ''processed'', category state, JStr ''v1'']])
       \<and> (\<forall>order'. {0, 1, 2} \<subseteq> set order' \<longrightarrow>
             enrichDataNode state random order' = enrichDataNode state random order)
       \<and> (\<forall>(results :: jsobject list) order'. {0..<length results} \<subseteq> set order' \<longrightarrow>
             Promise_all order' (map Inr results) = Some (Inr results))
       \<and> (\<forall>first second third key v. third key = Some v \<longrightarrow>
             Object_assign Map.empty [first, second, third] key = Some v)
       \<and> (\<forall>first second third key v. second key = Some v \<longrightarrow> third key = None \<longrightarrow>
             Object_assign Map.empty [first, second, third] key = Some v)"
proof -
  have B: "\<forall>order'. {0, 1, 2} \<subseteq> set order' \<longrightarrow>
             enrichDataNode state random order' = enrichDataNode state random order"
    using enrichDataNode_value [of _ state random] assms by simp
  have C: "\<forall>(results :: jsobject list) order'. {0..<length results} \<subseteq> set order' \<longrightarrow>
             Promise_all order' (map Inr results) = Some (Inr results)"
    using Promise_all_fulfilled by blast
  have D: "\<forall>first second third key v. third key = Some v \<longrightarrow>
             Object_assign Map.empty [first, second, third] key = Some v"
    by (simp add: Object_assign_three)
  have E: "\<forall>first second third key v. second key = Some v \<longrightarrow> third key = None \<longrightarrow>
             Object_assign Map.empty [first, second, third] key = Some v"
    by (simp add: Object_assign_three map_add_def)
  from enrichDataNode_value [OF assms, of state random] B C D E show ?thesis by (intro conjI)
qed

theorem fan_out_merges_in_declaration_order_witness:
  "enrichDataNode classified (9 / 10) [2, 0, 1] =
     Some (Inr [''sentiment'' \<mapsto> JStr ''positive'', ''complexity'' \<mapsto> JStr ''low'',
                ''tags'' \<mapsto> JArr [JStr ''processed'', JStr ''math'', JStr ''v1'']])
   \<and> enrichDataNode classified (9 / 10) [0, 1, 2] = enrichDataNode classified (9 / 10) [2, 0, 1]"
proof -
  have o: "{0, 1, 2} \<subseteq> set [2, 0, 1 :: nat]" by simp
  note th = fan_out_merges_in_declaration_order [OF o, of classified "9 / 10"]
  from th have "enrichDataNode classified (9 / 10) [2, 0, 1] =
           Some (Inr [''sentiment'' \<mapsto> JStr (if (9 / 10 :: real) > 0.5 then ''positive'' else ''neutral''),
                      ''complexity'' \<mapsto> JStr (if length (input classified) > 20 then ''high'' else ''low''),
                      ''tags'' \<mapsto> JArr [JStr ''processed'', category classified, JStr ''v1'']])"
    by (elim conjE)
  then have A: "enrichDataNode classified (9 / 10) [2, 0, 1] =
     Some (Inr [''sentiment'' \<mapsto> JStr ''positive'', ''complexity'' \<mapsto> JStr ''low'',
                ''tags'' \<mapsto> JArr [JStr ''processed'', JStr ''math'', JStr ''v1'']])"
    by (simp add: classified_def)
  from th have "\<forall>order'. {0, 1, 2} \<subseteq> set order' \<longrightarrow>
             enrichDataNode classified (9 / 10) order' = enrichDataNode classified (9 / 10) [2, 0, 1]"
    by (elim conjE)
  from this [rule_format, of "[0, 1, 2]"]
  have B: "enrichDataNode classified (9 / 10) [0, 1, 2] = enrichDataNode classified (9 / 10) [2, 0, 1]"
    by simp
  from A B show ?thesis by (intro conjI)
qed

theorem fan_out_random_counterexample:
  "enrichDataNode classified (9 / 10) [0, 1, 2] \<noteq> enrichDataNode classified (1 / 10) [0, 1, 2]"
proof
  assume eq: "enrichDataNode classified (9 / 10) [0, 1, 2] = enrichDataNode classified (1 / 10) [0, 1, 2]"
  have o: "{0, 1, 2} \<subseteq> set [0, 1, 2 :: nat]" by simp
  from eq have "[''sentiment'' \<mapsto> JStr (if (9 / 10 :: real) > 0.5 then ''positive'' else ''neutral''),
                      ''complexity'' \<mapsto> JStr (if length (input classified) > 20 then ''high'' else ''low''),
                      ''tags'' \<mapsto> JArr [JStr ''processed'', category classified, JStr ''v1'']]
       = [''sentiment'' \<mapsto> JStr (if (1 / 10 :: real) > 0.5 then ''positive'' else ''neutral''),
                      ''complexity'' \<mapsto> JStr (if length (input classified) > 20 then ''high'' else ''low''),
                      ''tags'' \<mapsto> JArr [JStr ''processed'', category classified, JStr ''v1'']]"
    by (simp only: enrichDataNode_value [OF o] option.inject sum.inject)
  then have "([''sentiment'' \<mapsto> JStr (if (9 / 10 :: real) > 0.5 then ''positive'' else ''neutral''),
                      ''complexity'' \<mapsto> JStr (if length (input classified) > 20 then ''high'' else ''low''),
                      ''tags'' \<mapsto> JArr [JStr ''processed'', category classified, JStr ''v1'']]) ''sentiment''
       = ([''sentiment'' \<mapsto> JStr (if (1 / 10 :: real) > 0.5 then ''positive'' else ''neutral''),
                      ''complexity'' \<mapsto> JStr (if length (input classified) > 20 then ''high'' else ''low''),
                      ''tags'' \<mapsto> JArr [JStr ''processed'', category classified, JStr ''v1'']]) ''sentiment''"
    by (rule arg_cong [where f = "\<lambda>m. m ''sentiment''"])
  then show False by simp
qed

section \<open>The routing functions\<close>

lemma doc_names_distinct:
  "''fetchWikiStructure'' \<noteq> START" "''analyzeInsights'' \<noteq> START"
  "''classifyInput'' \<noteq> START"
  by (simp_all add: START_def)

lemma shouldContinue_labels: "shouldContinue state \<in> {''toolNode'', END}"
  by (simp add: shouldContinue_def split: option.splits)

lemma routeByCategory_labels:
  "fst (routeByCategory state) \<in> {''processMath'', ''processText'', ''processData'', ''enrichData''}"
  by (simp add: routeByCategory_def)

lemma checkError_labels: "fst (checkError state) \<in> {''continue'', ''end''}"
  by (simp add: checkError_def)

lemma shouldAnswerQuestion_labels: "fst (shouldAnswerQuestion state) \<in> {''answer'', ''skip''}"
  by (simp add: shouldAnswerQuestion_def)

lemma routeByCategory_resolves:
  "resolve_next graph_edges ''classifyInput'' state = Inr (fst (routeByCategory state))"
  by (simp add: resolve_next_def graph_edges_def doc_names_distinct category_paths_def routeByCategory_def)

lemma checkError_resolves:
  "resolve_next doc_edges ''fetchWikiStructure'' state =
     Inr (if fst (checkError state) = ''continue'' then ''fetchWikiContents'' else END)"
  by (simp add: resolve_next_def doc_edges_def doc_names_distinct checkError_def)

lemma shouldAnswerQuestion_resolves:
  "resolve_next doc_edges ''analyzeInsights'' state =
     Inr (if fst (shouldAnswerQuestion state) = ''answer'' then ''answerQuestion'' else ''generateSummary'')"
  by (simp add: resolve_next_def doc_edges_def doc_names_distinct shouldAnswerQuestion_def)

lemma shouldContinue_console_eq: "shouldContinue_console state = (shouldContinue state, [])"
  by (simp add: shouldContinue_console_def shouldContinue_def split: option.splits)

lemma shouldContinue_trace_label: "fst (shouldContinue_trace state) = shouldContinue state"
  by (simp add: shouldContinue_trace_def shouldContinue_def split: option.splits)

lemma shouldContinue_trace_resolves:
  "resolve_next trace_edges ''llmCall'' state = Inr (shouldContinue state)"
  by (simp add: resolve_next_def trace_edges_def shouldContinue_trace_label shouldContinue_def
      split: option.splits)

lemma shouldContinue_trace_lines:
  "snd (shouldContinue_trace state) =
     (if messages state = [] \<or> getType (last (messages state)) \<noteq> ''ai'' then []
      else if shouldContinue state = ''toolNode'' then [NextNode ''toolNode'']
      else [NoToolCalls])"
  by (simp add: shouldContinue_trace_def shouldContinue_def at_last_def END_not_toolNode)

text \<open>
  C7 (as amended). Every routing function is total, leaves the state as it is, and for
  every state returns a label of its declared mapping, so that the lookup of the label
  never fails; \<open>routeByCategory\<close> always returns one of \<open>processMath\<close>, \<open>processText\<close>,
  \<open>processData\<close>, \<open>enrichData\<close>. Only \<open>shouldContinue\<close> of graph.ts writes nothing. The
  others write a line to the console: \<open>shouldContinue\<close> of the traced agent, which returns
  the same label, whenever the last message is an ai message; \<open>routeByCategory\<close> on every
  call; \<open>checkError\<close> when an error is set; \<open>shouldAnswerQuestion\<close> when none is set.
\<close>

theorem routing_labels_are_declared:
  "resolve_next (edges (agent llm)) ''llmCall'' messagesState = Inr (shouldContinue messagesState)
   \<and> shouldContinue messagesState \<in> {''toolNode'', END}
   \<and> shouldContinue_console messagesState = (shouldContinue messagesState, [])
   \<and> resolve_next trace_edges ''llmCall'' messagesState = Inr (fst (shouldContinue_trace messagesState))
   \<and> fst (shouldContinue_trace messagesState) = shouldContinue messagesState
   \<and> snd (shouldContinue_trace messagesState) =
        (if messages messagesState = [] \<or> getType (last (messages messagesState)) \<noteq> ''ai'' then []
         else if shouldContinue messagesState = ''toolNode'' then [NextNode ''toolNode'']
         else [NoToolCalls])
   \<and> resolve_next graph_edges ''classifyInput'' graphState = Inr (fst (routeByCategory graphState))
   \<and> fst (routeByCategory graphState)
        \<in> {''processMath'', ''processText'', ''processData'', ''enrichData''}
   \<and> resolve_next doc_edges ''fetchWikiStructure'' docState =
        Inr (if fst (checkError docState) = ''continue'' then ''fetchWikiContents'' else END)
   \<and> fst (checkError docState) \<in> {''continue'', ''end''}
   \<and> resolve_next doc_edges ''analyzeInsights'' docState =
        Inr (if fst (shouldAnswerQuestion docState) = ''answer'' then ''answerQuestion''
             else ''generateSummary'')
   \<and> fst (shouldAnswerQuestion docState) \<in> {''answer'', ''skip''}
   \<and> snd (routeByCategory graphState) = [RoutingTo (category graphState)]
   \<and> (snd (checkError docState) = [] \<longleftrightarrow> \<not> truthy (error docState))
   \<and> (snd (shouldAnswerQuestion docState) = [] \<longleftrightarrow> truthy (error docState))"
proof -
  have T: "resolve_next trace_edges ''llmCall'' messagesState = Inr (fst (shouldContinue_trace messagesState))"
    by (simp only: shouldContinue_trace_resolves shouldContinue_trace_label)
  have K: "snd (routeByCategory graphState) = [RoutingTo (category graphState)]"
    by (simp add: routeByCategory_def)
  have L: "snd (checkError docState) = [] \<longleftrightarrow> \<not> truthy (error docState)"
    by (simp add: checkError_def)
  have M: "snd (shouldAnswerQuestion docState) = [] \<longleftrightarrow> truthy (error docState)"
    by (simp add: shouldAnswerQuestion_def)
  from resolve_llmCall [of llm messagesState] shouldContinue_labels [of messagesState]
    shouldContinue_console_eq [of messagesState] T
    shouldContinue_trace_label [of messagesState] shouldContinue_trace_lines [of messagesState]
    routeByCategory_resolves [of graphState] routeByCategory_labels [of graphState]
    checkError_resolves [of docState] checkError_labels [of docState]
    shouldAnswerQuestion_resolves [of docState] shouldAnswerQuestion_labels [of docState]
    K L M
  show ?thesis by (intro conjI)
qed

lemma calling_routes: "shouldContinue calling = ''toolNode''"
  by (simp add: shouldContinue_def calling_def at_last_def has_length_def)

lemma answered_routes: "shouldContinue answered = END"
  by (simp add: shouldContinue_def answered_def at_last_def has_length_def)

theorem routing_labels_are_declared_witness:
  "fst (routeByCategory classified) = ''processMath''
   \<and> resolve_next graph_edges ''classifyInput'' classified = Inr ''processMath''
   \<and> resolve_next doc_edges ''fetchWikiStructure'' asked = Inr ''fetchWikiContents''
   \<and> resolve_next doc_edges ''fetchWikiStructure'' unreachable = Inr END
   \<and> resolve_next doc_edges ''analyzeInsights'' asked = Inr ''answerQuestion''
   \<and> snd (shouldAnswerQuestion unreachable) = []
   \<and> shouldContinue_console calling = (''toolNode'', [])
   \<and> shouldContinue_trace calling = (''toolNode'', [NextNode ''toolNode''])
   \<and> shouldContinue_trace answered = (END, [NoToolCalls])
   \<and> resolve_next trace_edges ''llmCall'' answered = Inr END"
proof -
  note a = routing_labels_are_declared [of add_3_4_model calling classified asked]
  note u = routing_labels_are_declared [of add_3_4_model answered classified unreachable]
  have r: "fst (routeByCategory classified) = ''processMath''"
    by (simp add: routeByCategory_def classified_def)
  have ca: "fst (checkError asked) = ''continue''"
    by (simp add: checkError_def asked_def truthy_def)
  have cu: "fst (checkError unreachable) = ''end''"
    by (simp add: checkError_def unreachable_def asked_def truthy_def)
  have qa: "fst (shouldAnswerQuestion asked) = ''answer''"
    by (simp add: shouldAnswerQuestion_def asked_def truthy_def trim_def is_space_def units_def)
  have tu: "truthy (error unreachable)"
    by (simp add: unreachable_def asked_def truthy_def)
  have lc: "messages calling \<noteq> []" "getType (last (messages calling)) = ''ai''"
    by (simp_all add: calling_def)
  have la: "messages answered \<noteq> []" "getType (last (messages answered)) = ''ai''"
    by (simp_all add: answered_def)
  from a have "resolve_next graph_edges ''classifyInput'' classified = Inr (fst (routeByCategory classified))"
    by (elim conjE)
  moreover from a have "resolve_next doc_edges ''fetchWikiStructure'' asked =
        Inr (if fst (checkError asked) = ''continue'' then ''fetchWikiContents'' else END)"
    by (elim conjE)
  moreover from u have "resolve_next doc_edges ''fetchWikiStructure'' unreachable =
        Inr (if fst (checkError unreachable) = ''continue'' then ''fetchWikiContents'' else END)"
    by (elim conjE)
  moreover from a have "resolve_next doc_edges ''analyzeInsights'' asked =
        Inr (if fst (shouldAnswerQuestion asked) = ''answer'' then ''answerQuestion''
             else ''generateSummary'')"
    by (elim conjE)
  moreover from u have "snd (shouldAnswerQuestion unreachable) = [] \<longleftrightarrow> truthy (error unreachable)"
    by (elim conjE)
  moreover from a have "shouldContinue_console calling = (shouldContinue calling, [])"
    by (elim conjE)
  moreover from a have "fst (shouldContinue_trace calling) = shouldContinue calling"
    by (elim conjE)
  moreover from a have "snd (shouldContinue_trace calling) =
        (if messages calling = [] \<or> getType (last (messages calling)) \<noteq> ''ai'' then []
         else if shouldContinue calling = ''toolNode'' then [NextNode ''toolNode'']
         else [NoToolCalls])"
    by (elim conjE)
  moreover from u have "fst (shouldContinue_trace answered) = shouldContinue answered"
    by (elim conjE)
  moreover from u have "snd (shouldContinue_trace answered) =
        (if messages answered = [] \<or> getType (last (messages answered)) \<noteq> ''ai'' then []
         else if shouldContinue answered = ''toolNode'' then [NextNode ''toolNode'']
         else [NoToolCalls])"
    by (elim conjE)
  moreover from u have "resolve_next trace_edges ''llmCall'' answered = Inr (fst (shouldContinue_trace answered))"
    by (elim conjE)
  ultimately show ?thesis
    by (simp add: r ca cu qa tu lc la calling_routes answered_routes END_not_toolNode prod_eq_iff)
qed

theorem routing_trace_counterexample:
  "snd (routeByCategory classified) = [RoutingTo (JStr ''math'')]
   \<and> snd (routeByCategory classified) \<noteq> []
   \<and> snd (checkError unreachable) = [ErrorDetected ''fetch failed'']
   \<and> snd (shouldAnswerQuestion asked) = [QuestionPresent (units ''What is a StateGraph?'')]
   \<and> snd (shouldContinue_trace calling) = [NextNode ''toolNode'']
   \<and> snd (shouldContinue_trace answered) = [NoToolCalls]"
  by (simp add: routeByCategory_def classified_def checkError_def shouldAnswerQuestion_def
      unreachable_def asked_def truthy_def trim_def is_space_def units_def
      shouldContinue_trace_def calling_def answered_def at_last_def has_length_def)

text \<open>
  A question that is one no-break space is white space to \<open>trim\<close>: it is skipped.
\<close>

lemma blank_question_skipped: "shouldAnswerQuestion blank = (''skip'', [NoQuestion])"
  by (simp add: shouldAnswerQuestion_def blank_def asked_def truthy_def trim_def is_space_def)

end
